theory Spec2Isabelle
  imports Main "HOL-Library.Multiset"
begin

section \<open>The graph container (graph/graph.go)\<close>

text \<open>
  \<^verbatim>\<open>DotNodeSpec\<close> and \<^verbatim>\<open>DotEdgeSpec\<close> are plain structs of strings. The two structs
  share the field names \<^verbatim>\<open>Tooltip\<close> and \<^verbatim>\<open>Style\<close>; the edge's fields carry the prefix
  \<open>Edge\<close> here.
\<close>

record DotNodeSpec =
  ID :: string
  Name :: string
  Tooltip :: string
  Shape :: string
  Style :: string
  FillColor :: string

record DotEdgeSpec =
  FromNodeID :: string
  ToNodeID :: string
  EdgeTooltip :: string
  EdgeStyle :: string
  Color :: string

record 'nt Edge =
  From :: 'nt
  To :: 'nt

text \<open>
  \<^verbatim>\<open>Graph[NT]\<close>: two Go maps keyed by node ID and the edge decorator. The constraint
  \<^verbatim>\<open>NodeConstrain\<close> (a node has a method \<^verbatim>\<open>DotSpec()\<close>) is the explicit argument
  \<open>DotSpec\<close> of the operations that call it.
\<close>

record 'nt Graph =
  nodes :: "string \<rightharpoonup> 'nt"
  nodeEdges :: "string \<rightharpoonup> 'nt Edge list"
  edgeSpecFunc :: "'nt \<Rightarrow> 'nt \<Rightarrow> DotEdgeSpec"

datatype GraphError = ErrDuplicateNode | ErrConnectNotExistingNode

definition NewGraph :: "('nt \<Rightarrow> 'nt \<Rightarrow> DotEdgeSpec) \<Rightarrow> 'nt Graph" where
  "NewGraph f = \<lparr>nodes = Map.empty, nodeEdges = Map.empty, edgeSpecFunc = f\<rparr>"

text \<open>\<^verbatim>\<open>AddNode\<close> returns the error (\<open>None\<close> is Go's \<^verbatim>\<open>nil\<close>) and the graph it leaves.\<close>

definition AddNode :: "('nt \<Rightarrow> DotNodeSpec) \<Rightarrow> 'nt \<Rightarrow> 'nt Graph \<Rightarrow> GraphError option \<times> 'nt Graph" where
  "AddNode DotSpec n g =
     (let nodeKey = ID (DotSpec n) in
      case nodes g nodeKey of
        Some _ \<Rightarrow> (Some ErrDuplicateNode, g)
      | None \<Rightarrow> (None, g\<lparr>nodes := (nodes g)(nodeKey \<mapsto> n)\<rparr>))"

text \<open>
  Reading a missing key of \<^verbatim>\<open>nodeEdges\<close> gives the nil slice, to which \<^verbatim>\<open>append\<close> adds
  the first edge.
\<close>

definition edgesOf :: "'nt Graph \<Rightarrow> string \<Rightarrow> 'nt Edge list" where
  "edgesOf g k = (case nodeEdges g k of None \<Rightarrow> [] | Some es \<Rightarrow> es)"

definition Connect :: "string \<Rightarrow> string \<Rightarrow> 'nt Graph \<Rightarrow> GraphError option \<times> 'nt Graph" where
  "Connect from to g =
     (case nodes g from of
        None \<Rightarrow> (Some ErrConnectNotExistingNode, g)
      | Some nodeFrom \<Rightarrow>
          (case nodes g to of
             None \<Rightarrow> (Some ErrConnectNotExistingNode, g)
           | Some nodeTo \<Rightarrow>
               (None, g\<lparr>nodeEdges := (nodeEdges g)(from \<mapsto> edgesOf g from @ [\<lparr>From = nodeFrom, To = nodeTo\<rparr>])\<rparr>)))"

text \<open>
  \<^verbatim>\<open>ToDotGraph\<close> walks both maps with \<^verbatim>\<open>range\<close>. Go leaves the order in which
  \<^verbatim>\<open>range\<close> visits the entries of a map unspecified, and it need not be the same from one
  loop to the next; the order the runtime takes is therefore an argument of the model: a
  list of the map's keys, each once.
\<close>

definition rangeOrder :: "string list \<Rightarrow> (string \<rightharpoonup> 'v) \<Rightarrow> bool" where
  "rangeOrder ks m = (distinct ks \<and> set ks = dom m)"

definition rangeValues :: "string list \<Rightarrow> (string \<rightharpoonup> 'v) \<Rightarrow> 'v list" where
  "rangeValues ks m = List.map_filter m ks"

record templateRef =
  Nodes :: "DotNodeSpec list"
  Edges :: "DotEdgeSpec list"

definition templateInput ::
  "('nt \<Rightarrow> DotNodeSpec) \<Rightarrow> string list \<Rightarrow> string list \<Rightarrow> 'nt Graph \<Rightarrow> templateRef" where
  "templateInput DotSpec nodeOrder edgeOrder g =
     \<lparr>Nodes = map DotSpec (rangeValues nodeOrder (nodes g)),
      Edges = concat (map (map (\<lambda>edge. edgeSpecFunc g (From edge) (To edge)))
                          (rangeValues edgeOrder (nodeEdges g)))\<rparr>"

text \<open>
  The template is a package variable declared outside graph.go, so its \<^verbatim>\<open>Execute\<close> is the
  argument \<open>execute\<close>: it writes the text or fails. \<^verbatim>\<open>ToDotGraph\<close> returns the empty string
  with the error, and the text with nil.
\<close>

definition ToDotGraph ::
  "(templateRef \<Rightarrow> 'e + string) \<Rightarrow> ('nt \<Rightarrow> DotNodeSpec) \<Rightarrow> string list \<Rightarrow> string list
     \<Rightarrow> 'nt Graph \<Rightarrow> string \<times> 'e option" where
  "ToDotGraph execute DotSpec nodeOrder edgeOrder g =
     (case execute (templateInput DotSpec nodeOrder edgeOrder g) of
        Inl err \<Rightarrow> ([], Some err)
      | Inr text \<Rightarrow> (text, None))"

text \<open>
  Modelled from the spec: \<^verbatim>\<open>digraphTemplate\<close>, the template text, is not in graph.go. The
  spec says that the graph module produces a digraph text block from the nodes and the
  edges, with node and edge attributes escaped, and leaves the byte-level format open.
  This rendering writes one line for each node and one for each edge, in the order of the
  two lists, and never fails.
\<close>

definition escapeDot :: "string \<Rightarrow> string" where
  "escapeDot s = concat (map (\<lambda>c. if c = CHR 0x22 \<or> c = CHR 0x5C then [CHR 0x5C, c] else [c]) s)"

definition quoted :: "string \<Rightarrow> string" where
  "quoted s = [CHR 0x22] @ escapeDot s @ [CHR 0x22]"

definition nodeLine :: "DotNodeSpec \<Rightarrow> string" where
  "nodeLine n = ''  '' @ quoted (ID n) @ '' [label='' @ quoted (Name n) @ '' shape='' @ quoted (Shape n)
     @ '' style='' @ quoted (Style n) @ '' tooltip='' @ quoted (Tooltip n)
     @ '' fillcolor='' @ quoted (FillColor n) @ '']'' @ [CHR 0x0A]"

definition edgeLine :: "DotEdgeSpec \<Rightarrow> string" where
  "edgeLine e = ''  '' @ quoted (FromNodeID e) @ '' -> '' @ quoted (ToNodeID e)
     @ '' [style='' @ quoted (EdgeStyle e) @ '' tooltip='' @ quoted (EdgeTooltip e)
     @ '' color='' @ quoted (Color e) @ '']'' @ [CHR 0x0A]"

definition digraphTemplate :: "templateRef \<Rightarrow> unit + string" where
  "digraphTemplate r =
     Inr (''digraph {'' @ [CHR 0x0A] @ concat (map nodeLine (Nodes r))
          @ concat (map edgeLine (Edges r)) @ ''}'')"

text \<open>Nodes for examples: a node is its own ID and name.\<close>

definition plainNode :: "string \<Rightarrow> DotNodeSpec" where
  "plainNode s = \<lparr>ID = s, Name = s, Tooltip = [], Shape = ''box'', Style = ''filled'', FillColor = ''white''\<rparr>"

definition plainEdge :: "string \<Rightarrow> string \<Rightarrow> DotEdgeSpec" where
  "plainEdge a b = \<lparr>FromNodeID = a, ToNodeID = b, EdgeTooltip = [], EdgeStyle = ''solid'', Color = ''black''\<rparr>"

definition twoNodes :: "string Graph" where
  "twoNodes = snd (AddNode plainNode ''b'' (snd (AddNode plainNode ''a'' (NewGraph plainEdge))))"

section \<open>Errors, retry policies and step definitions\<close>

text \<open>
  Modelled from the spec: the error struct and its constructors \<^verbatim>\<open>newJobError\<close> and
  \<^verbatim>\<open>newStepError\<close> are declared outside the files at hand. The spec gives the error
  surface as \<^verbatim>\<open>JobError{code, stepInstance?, cause}\<close>, has the instrumented body wrap a
  user function's error as \<^verbatim>\<open>StepError{stepName, cause}\<close>, and gives that error the code
  \<^verbatim>\<open>StepFailed\<close>. \<open>Errorf\<close> is an error made by \<^verbatim>\<open>fmt.Errorf\<close>, by a builder or by a
  user function.
\<close>

datatype JobErrorCode = ErrPrecedentStepFailure | ErrStepFailed

datatype error =
    Errorf string
  | JobError JobErrorCode string "error option" string

definition newJobError :: "JobErrorCode \<Rightarrow> string \<Rightarrow> error" where
  "newJobError code message = JobError code [] None message"

definition newStepError :: "string \<Rightarrow> error \<Rightarrow> error" where
  "newStepError stepName stepErr = JobError ErrStepFailed stepName (Some stepErr) []"

type_synonym Time = int
type_synonym Duration = int

text \<open>
  The interface \<^verbatim>\<open>RetryPolicy\<close> has the two methods that \<^verbatim>\<open>linearRetryPolicy\<close>
  implements. A policy is an object with state of its own (type \<open>'p\<close>), which either
  method may change: a method takes the state and returns it with its result.
\<close>

record 'p RetryPolicy =
  ShouldRetry :: "'p \<Rightarrow> error \<Rightarrow> bool \<times> 'p"
  SleepInterval :: "'p \<Rightarrow> Duration \<times> 'p"






text \<open>
  Modelled from the spec: the step definition, its execution options and the option
  decorators are declared outside the files at hand. The spec lists the fields: the name,
  the kind, the predecessor names in order, and the execution options with the optional
  retry policy; \<^verbatim>\<open>executeAfter\<close> declares a dependency on another step and \<^verbatim>\<open>withRetry\<close>
  sets the policy. A builder compares step definitions as pointers: \<open>ref\<close> is the address
  of a definition, which \<^verbatim>\<open>newStepDefinition\<close> gets from the allocator.
\<close>

datatype StepType = stepTypeRoot | stepTypeTask | stepTypeParam

record 'p StepExecutionOptions =
  DependOn :: "string list"
  RetryPolicy :: "'p RetryPolicy option"

type_synonym 'p ExecutionOptionPreparer = "'p StepExecutionOptions \<Rightarrow> 'p StepExecutionOptions"

record 'p StepDefinition =
  ref :: nat
  name :: string
  stepType :: StepType
  executionOptions :: "'p StepExecutionOptions"

definition GetName :: "'p StepDefinition \<Rightarrow> string" where
  "GetName step = name step"

definition DependsOn :: "'p StepDefinition \<Rightarrow> string list" where
  "DependsOn step = DependOn (executionOptions step)"

definition ExecuteAfter :: "'p StepDefinition \<Rightarrow> 'p ExecutionOptionPreparer" where
  "ExecuteAfter step options = options\<lparr>DependOn := DependOn options @ [GetName step]\<rparr>"


definition newStepDefinition ::
  "nat \<Rightarrow> string \<Rightarrow> StepType \<Rightarrow> 'p ExecutionOptionPreparer list \<Rightarrow> 'p StepDefinition" where
  "newStepDefinition r stepName kind optionDecorators =
     \<lparr>ref = r, name = stepName, stepType = kind,
      executionOptions = fold (\<lambda>decorator options. decorator options) optionDecorators
                           \<lparr>DependOn = [], RetryPolicy = None\<rparr>\<rparr>"

definition StepDefinition_DotSpec :: "'p StepDefinition \<Rightarrow> DotNodeSpec" where
  "StepDefinition_DotSpec step =
     \<lparr>ID = GetName step, Name = GetName step, Tooltip = [], Shape = ''box'', Style = ''filled'',
      FillColor = ''white''\<rparr>"

definition connectStepDefinition :: "'p StepDefinition \<Rightarrow> 'p StepDefinition \<Rightarrow> DotEdgeSpec" where
  "connectStepDefinition stepFrom stepTo =
     \<lparr>FromNodeID = GetName stepFrom, ToNodeID = GetName stepTo, EdgeTooltip = [],
      EdgeStyle = ''solid'', Color = ''black''\<rparr>"

section \<open>The job definition\<close>

text \<open>
  Modelled from the spec: the job definition and its methods are declared outside the
  files at hand. The spec gives the fields (name, root step, the mapping from names to
  step definitions, the graph with edges from predecessor to successor, the sealed
  latch), has \<^verbatim>\<open>new\<close> create the root step, has \<^verbatim>\<open>seal\<close> and the first \<^verbatim>\<open>start\<close> set the
  latch, and has a step added as a node of the graph with edges from its predecessors
  while the definition is unsealed; once it is sealed, mutation fails, so the method
  \<^verbatim>\<open>AddStep\<close> leaves a sealed definition as it is. The builders call the method as a
  statement, so it is modelled by the job definition it leaves. The spec does not name
  the root step; here it carries the job's name.
\<close>

record 'p JobDefinition =
  jobName :: string
  sealed :: bool
  steps :: "string \<rightharpoonup> 'p StepDefinition"
  stepsDag :: "'p StepDefinition Graph"
  rootStep :: "'p StepDefinition"

definition NewJobDefinition :: "nat \<Rightarrow> string \<Rightarrow> 'p JobDefinition" where
  "NewJobDefinition r jname =
     (let root = newStepDefinition r jname stepTypeRoot [] in
      \<lparr>jobName = jname, sealed = False, steps = [GetName root \<mapsto> root],
       stepsDag = snd (AddNode StepDefinition_DotSpec root (NewGraph connectStepDefinition)),
       rootStep = root\<rparr>)"

definition GetStep :: "'p JobDefinition \<Rightarrow> string \<Rightarrow> 'p StepDefinition option" where
  "GetStep j stepName = steps j stepName"

definition RootStep :: "'p JobDefinition \<Rightarrow> 'p StepDefinition" where
  "RootStep j = rootStep j"

definition Sealed :: "'p JobDefinition \<Rightarrow> bool" where
  "Sealed j = sealed j"

definition Seal :: "'p JobDefinition \<Rightarrow> 'p JobDefinition" where
  "Seal j = j\<lparr>sealed := True\<rparr>"

definition registerStep ::
  "'p StepDefinition \<Rightarrow> 'p StepDefinition list \<Rightarrow> 'p JobDefinition \<Rightarrow> 'p JobDefinition" where
  "registerStep step precedingSteps j =
     j\<lparr>steps := (steps j)(GetName step \<mapsto> step),
       stepsDag := fold (\<lambda>precedingStep g.
                      snd (Connect (ID (StepDefinition_DotSpec precedingStep))
                                   (ID (StepDefinition_DotSpec step)) g))
                    precedingSteps
                    (snd (AddNode StepDefinition_DotSpec step (stepsDag j)))\<rparr>"

definition JobDefinition_AddStep ::
  "'p StepDefinition \<Rightarrow> 'p StepDefinition list \<Rightarrow> 'p JobDefinition \<Rightarrow> 'p JobDefinition" where
  "JobDefinition_AddStep step precedingSteps j =
     (if sealed j then j else registerStep step precedingSteps j)"

section \<open>The step builders\<close>

text \<open>
  A builder returns the new step definition or an error, and the job definition it
  leaves. The arguments \<^verbatim>\<open>bCtx\<close> and \<^verbatim>\<open>stepFunc\<close> play no part at definition time: the
  user function is only captured by the closure \<^verbatim>\<open>instanceCreator\<close>, whose body is the
  subject of the next section. The argument \<open>r\<close> is the address of the definition that
  \<^verbatim>\<open>newStepDefinition\<close> allocates.
\<close>

fun getDependsOnSteps_loop ::
  "string list \<Rightarrow> 'p JobDefinition \<Rightarrow> 'p StepDefinition list \<Rightarrow> error + 'p StepDefinition list" where
  "getDependsOnSteps_loop [] j precedingDefSteps = Inr precedingDefSteps"
| "getDependsOnSteps_loop (depStepName # rest) j precedingDefSteps =
     (case GetStep j depStepName of
        Some depStep \<Rightarrow> getDependsOnSteps_loop rest j (precedingDefSteps @ [depStep])
      | None \<Rightarrow> Inl (Errorf (''step ['' @ depStepName @ ''] not found'')))"

definition getDependsOnSteps :: "'p StepDefinition \<Rightarrow> 'p JobDefinition \<Rightarrow> error + 'p StepDefinition list" where
  "getDependsOnSteps step j = getDependsOnSteps_loop (DependsOn step) j []"

definition AddStep ::
  "nat \<Rightarrow> 'p JobDefinition \<Rightarrow> string \<Rightarrow> 'p ExecutionOptionPreparer list
     \<Rightarrow> (error + 'p StepDefinition) \<times> 'p JobDefinition" where
  "AddStep r j stepName optionDecorators =
     (let stepD = newStepDefinition r stepName stepTypeTask optionDecorators in
      case getDependsOnSteps stepD j of
        Inl err \<Rightarrow> (Inl err, j)
      | Inr precedingDefSteps \<Rightarrow>
          if length precedingDefSteps = 0
          then (let precedingDefSteps' = precedingDefSteps @ [RootStep j];
                    stepD' = stepD\<lparr>executionOptions := (executionOptions stepD)
                               \<lparr>DependOn := DependOn (executionOptions stepD) @ [GetName (RootStep j)]\<rparr>\<rparr>
                in (Inr stepD', JobDefinition_AddStep stepD' precedingDefSteps' j))
          else (Inr stepD, JobDefinition_AddStep stepD precedingDefSteps j))"

definition StepAfter ::
  "nat \<Rightarrow> 'p JobDefinition \<Rightarrow> string \<Rightarrow> 'p StepDefinition \<Rightarrow> 'p ExecutionOptionPreparer list
     \<Rightarrow> (error + 'p StepDefinition) \<times> 'p JobDefinition" where
  "StepAfter r j stepName parentStep optionDecorators =
     (case GetStep j (GetName parentStep) of
        None \<Rightarrow> (Inl (Errorf (''step ['' @ GetName parentStep @ ''] not found in job'')), j)
      | Some get \<Rightarrow>
          if ref get \<noteq> ref parentStep
          then (Inl (Errorf (''step ['' @ GetName parentStep @ ''] not found in job'')), j)
          else
            (let stepD = newStepDefinition r stepName stepTypeTask
                           (optionDecorators @ [ExecuteAfter parentStep]) in
             case getDependsOnSteps stepD j of
               Inl err \<Rightarrow> (Inl err, j)
             | Inr precedingDefSteps \<Rightarrow>
                 (let precedingDefSteps' =
                        (if length precedingDefSteps = 0 then precedingDefSteps @ [RootStep j]
                         else precedingDefSteps)
                  in (Inr stepD, JobDefinition_AddStep stepD precedingDefSteps' j))))"

definition StepAfterBoth ::
  "nat \<Rightarrow> 'p JobDefinition \<Rightarrow> string \<Rightarrow> 'p StepDefinition \<Rightarrow> 'p StepDefinition
     \<Rightarrow> 'p ExecutionOptionPreparer list \<Rightarrow> (error + 'p StepDefinition) \<times> 'p JobDefinition" where
  "StepAfterBoth r j stepName parentStepT parentStepS optionDecorators =
     (case GetStep j (GetName parentStepT) of
        None \<Rightarrow> (Inl (Errorf (''step ['' @ GetName parentStepT @ ''] not found in job'')), j)
      | Some getT \<Rightarrow>
          if ref getT \<noteq> ref parentStepT
          then (Inl (Errorf (''step ['' @ GetName parentStepT @ ''] not found in job'')), j)
          else
            (case GetStep j (GetName parentStepS) of
               None \<Rightarrow> (Inl (Errorf (''step ['' @ GetName parentStepS @ ''] not found in job'')), j)
             | Some getS \<Rightarrow>
                 if ref getS \<noteq> ref parentStepS
                 then (Inl (Errorf (''step ['' @ GetName parentStepS @ ''] not found in job'')), j)
                 else
                   (let stepD = newStepDefinition r stepName stepTypeTask
                                  (optionDecorators @ [ExecuteAfter parentStepT, ExecuteAfter parentStepS]) in
                    case getDependsOnSteps stepD j of
                      Inl err \<Rightarrow> (Inl err, j)
                    | Inr precedingDefSteps \<Rightarrow>
                        (let precedingDefSteps' =
                               (if length precedingDefSteps = 0 then precedingDefSteps @ [RootStep j]
                                else precedingDefSteps)
                         in (Inr stepD, JobDefinition_AddStep stepD precedingDefSteps' j)))))"

definition StepFromJobInput ::
  "nat \<Rightarrow> 'p JobDefinition \<Rightarrow> string \<Rightarrow> 'p ExecutionOptionPreparer list
     \<Rightarrow> (error + 'p StepDefinition) \<times> 'p JobDefinition" where
  "StepFromJobInput r j stepName optionDecorators = StepAfter r j stepName (rootStep j) optionDecorators"

text \<open>
  \<^verbatim>\<open>getDependsOnStepInstances\<close> resolves the names in a job instance, here the mapping
  from step names to step instances that \<^verbatim>\<open>GetStepInstance\<close> reads. The source fills two
  slices in step, the instances and their tasks; the tasks are the instances' \<^verbatim>\<open>Waitable()\<close>.
\<close>

fun getDependsOnStepInstances_loop ::
  "string list \<Rightarrow> (string \<rightharpoonup> 'i) \<Rightarrow> 'i list \<Rightarrow> error + 'i list" where
  "getDependsOnStepInstances_loop [] ji precedingInstances = Inr precedingInstances"
| "getDependsOnStepInstances_loop (depStepName # rest) ji precedingInstances =
     (case ji depStepName of
        Some depStep \<Rightarrow> getDependsOnStepInstances_loop rest ji (precedingInstances @ [depStep])
      | None \<Rightarrow> Inl (Errorf (''runtime step ['' @ depStepName @ ''] not found'')))"

definition getDependsOnStepInstances :: "'p StepDefinition \<Rightarrow> (string \<rightharpoonup> 'i) \<Rightarrow> error + 'i list" where
  "getDependsOnStepInstances stepD ji = getDependsOnStepInstances_loop (DependsOn stepD) ji []"

section \<open>The instrumented body of a step\<close>

text \<open>
  Modelled from the spec: the step instance is declared outside the files at hand. The
  spec gives its fields: the state, one of Pending, Running, Completed and Failed, and the
  execution data with the start time, the duration and the optional retry report; a
  new instance is Pending. Of the retry report only the count is modelled, the one field
  the tests read.
\<close>

datatype StepState = StepStatePending | StepStateRunning | StepStateFailed | StepStateCompleted

record RetryReport =
  Count :: int

record StepExecutionData =
  StartTime :: Time
  Duration :: Duration
  Retried :: "RetryReport option"

record StepInstance =
  definitionName :: string
  state :: StepState
  executionData :: StepExecutionData

definition newStepInstance :: "'p StepDefinition \<Rightarrow> StepInstance" where
  "newStepInstance stepD =
     \<lparr>definitionName = GetName stepD, state = StepStatePending,
      executionData = \<lparr>StartTime = 0, Duration = 0, Retried = None\<rparr>\<rparr>"

text \<open>
  The body runs on the worker of its step and is the only writer of the step instance.
  What it reads and writes is the state \<open>world\<close>: the clock behind \<^verbatim>\<open>time.Now\<close>, the time
  at which the context is cancelled (if it is), the number of calls of the user
  function made so far, the step instance, and the state of the retry policy object.
\<close>

record 'p world =
  clock :: Time
  ctxDoneAt :: "Time option"
  invocations :: nat
  stepInstance :: StepInstance
  policyState :: 'p

text \<open>
  The user function is an opaque Go closure. The model gives it the state it is called
  in and takes from it what it returns (\<open>Inl\<close> a non-nil error, \<open>Inr\<close> the result) and the
  time it ran for; its data arguments are fixed when the body runs and are part of the
  closure. A user function that panics or never returns is outside the model. Calling
  it advances the clock and counts the call.
\<close>

type_synonym ('p, 'r) StepFunc = "'p world \<Rightarrow> (error + 'r) \<times> nat"

definition invoke :: "('p, 'r) StepFunc \<Rightarrow> 'p world \<Rightarrow> (error + 'r) \<times> 'p world" where
  "invoke stepFunc w =
     (case stepFunc w of
        (result, elapsed) \<Rightarrow> (result, w\<lparr>clock := clock w + int elapsed, invocations := Suc (invocations w)\<rparr>))"

definition updExecutionData :: "(StepExecutionData \<Rightarrow> StepExecutionData) \<Rightarrow> 'p world \<Rightarrow> 'p world" where
  "updExecutionData f w =
     w\<lparr>stepInstance := (stepInstance w)\<lparr>executionData := f (executionData (stepInstance w))\<rparr>\<rparr>"

definition setState :: "StepState \<Rightarrow> 'p world \<Rightarrow> 'p world" where
  "setState s w = w\<lparr>stepInstance := (stepInstance w)\<lparr>state := s\<rparr>\<rparr>"

definition ctxCanceled :: "'p world \<Rightarrow> bool" where
  "ctxCanceled w = (case ctxDoneAt w of None \<Rightarrow> False | Some t \<Rightarrow> t \<le> clock w)"

text \<open>
  \<^verbatim>\<open>asynctask.WaitAll\<close> belongs to the task library that \<^verbatim>\<open>go.mod\<close> names. The preceding
  tasks are given by how they ended, nil or an error, and the context by the state in
  which the wait is over. Given no task \<^verbatim>\<open>WaitAll\<close> returns nil at once. Given tasks, it
  returns an error once the context is done; otherwise it returns nil when all tasks
  succeeded and the error of one that failed, here the first in the list. The body only
  tests the result against nil.
\<close>

type_synonym Waitable = "error option"

fun firstError :: "Waitable list \<Rightarrow> error option" where
  "firstError [] = None"
| "firstError (None # tasks) = firstError tasks"
| "firstError (Some err # tasks) = Some err"

definition WaitAll :: "'p world \<Rightarrow> Waitable list \<Rightarrow> error option" where
  "WaitAll ctx tasks =
     (if tasks = [] then None
      else if ctxCanceled ctx then Some (Errorf ''WaitAll context canceled'')
      else firstError tasks)"

text \<open>
  Modelled from the spec: the retry driver \<^verbatim>\<open>newRetryer(...).Run()\<close> is declared outside
  the files at hand. By the spec the driver runs attempt 1; on an error it returns the
  error at once if the context is cancelled, returns it if the policy's \<^verbatim>\<open>shouldRetry\<close> is
  false, and otherwise sleeps for the policy's \<^verbatim>\<open>sleepInterval\<close> (a sleep that
  cancellation interrupts), increments the count of the report and runs the function
  again. The report is the one the body has stored in the execution data. The loop need
  not end: \<open>None\<close> is a run that never returns.
\<close>

definition sleep :: "Duration \<Rightarrow> 'p world \<Rightarrow> 'p world" where
  "sleep d w =
     (let wake = clock w + max 0 d in
      w\<lparr>clock := (case ctxDoneAt w of
                    None \<Rightarrow> wake
                  | Some t \<Rightarrow> if t < wake then max (clock w) t else wake)\<rparr>)"

definition countRetry :: "'p world \<Rightarrow> 'p world" where
  "countRetry w = updExecutionData (\<lambda>d. d\<lparr>Retried := map_option (\<lambda>r. r\<lparr>Count := Count r + 1\<rparr>) (Retried d)\<rparr>) w"

partial_function (option) Run ::
  "'p RetryPolicy \<Rightarrow> ('p, 'r) StepFunc \<Rightarrow> 'p world \<Rightarrow> ((error + 'r) \<times> 'p world) option" where
  "Run policy function w =
     (case invoke function w of
        (Inr t, w1) \<Rightarrow> Some (Inr t, w1)
      | (Inl err, w1) \<Rightarrow>
          if ctxCanceled w1 then Some (Inl err, w1)
          else
            (case ShouldRetry policy (policyState w1) err of
               (retry, p1) \<Rightarrow>
                 if \<not> retry then Some (Inl err, w1\<lparr>policyState := p1\<rparr>)
                 else
                   (case SleepInterval policy p1 of
                      (d, p2) \<Rightarrow> Run policy function (countRetry (sleep d (w1\<lparr>policyState := p2\<rparr>))))))"

text \<open>
  The closure \<^verbatim>\<open>instrumentedFunc\<close>. The three builders write the same body; they differ
  in the arguments they pass to the user function. \<open>stepD\<close>, \<open>stepName\<close>, \<open>stepFunc\<close> and
  \<open>precedingTasks\<close> are the variables the closure captures; the state \<open>w\<close> is also the
  context \<^verbatim>\<open>ctx\<close> that the body passes to \<^verbatim>\<open>WaitAll\<close>.
\<close>

definition instrumentedFunc ::
  "'p StepDefinition \<Rightarrow> string \<Rightarrow> ('p, 'r) StepFunc \<Rightarrow> Waitable list \<Rightarrow> 'p world
     \<Rightarrow> ((error + 'r) \<times> 'p world) option" where
  "instrumentedFunc stepD stepName stepFunc precedingTasks w =
     (case WaitAll w precedingTasks of
        Some err \<Rightarrow> Some (Inl (newJobError ErrPrecedentStepFailure []), w)
      | None \<Rightarrow>
          (let w1 = updExecutionData (\<lambda>d. d\<lparr>StartTime := clock w\<rparr>) w;
               w2 = setState StepStateRunning w1
           in case (case RetryPolicy (executionOptions stepD) of
                      Some policy \<Rightarrow>
                        Run policy stepFunc (updExecutionData (\<lambda>d. d\<lparr>Retried := Some \<lparr>Count = 0\<rparr>\<rparr>) w2)
                    | None \<Rightarrow> Some (invoke stepFunc w2)) of
                None \<Rightarrow> None
              | Some (result, w3) \<Rightarrow>
                  (let w4 = updExecutionData
                              (\<lambda>d. d\<lparr>Duration := clock w3 - StartTime (executionData (stepInstance w3))\<rparr>) w3
                   in case result of
                        Inl err \<Rightarrow> Some (Inl (newStepError stepName err), setState StepStateFailed w4)
                      | Inr r \<Rightarrow> Some (Inr r, setState StepStateCompleted w4))))"

definition AddStep_instrumentedFunc ::
  "'p StepDefinition \<Rightarrow> string \<Rightarrow> ('p, 'r) StepFunc \<Rightarrow> Waitable list \<Rightarrow> 'p world
     \<Rightarrow> ((error + 'r) \<times> 'p world) option" where
  "AddStep_instrumentedFunc stepD stepName stepFunc precedingTasks w =
     instrumentedFunc stepD stepName stepFunc precedingTasks w"

definition StepAfter_instrumentedFunc ::
  "'p StepDefinition \<Rightarrow> string \<Rightarrow> ('t \<Rightarrow> ('p, 'r) StepFunc) \<Rightarrow> Waitable list \<Rightarrow> 't \<Rightarrow> 'p world
     \<Rightarrow> ((error + 'r) \<times> 'p world) option" where
  "StepAfter_instrumentedFunc stepD stepName stepFunc precedingTasks t w =
     instrumentedFunc stepD stepName (stepFunc t) precedingTasks w"

definition StepAfterBoth_instrumentedFunc ::
  "'p StepDefinition \<Rightarrow> string \<Rightarrow> ('t \<Rightarrow> 's \<Rightarrow> ('p, 'r) StepFunc) \<Rightarrow> Waitable list \<Rightarrow> 't \<Rightarrow> 's
     \<Rightarrow> 'p world \<Rightarrow> ((error + 'r) \<times> 'p world) option" where
  "StepAfterBoth_instrumentedFunc stepD stepName stepFunc precedingTasks t s w =
     instrumentedFunc stepD stepName (stepFunc t s) precedingTasks w"

text \<open>
  The closure \<^verbatim>\<open>instanceCreator\<close> of a builder resolves the preceding instances in the job
  instance, makes the step instance and starts its task: \<^verbatim>\<open>AddStep\<close> with
  \<^verbatim>\<open>asynctask.Start\<close>, \<^verbatim>\<open>StepAfter\<close> with \<^verbatim>\<open>asynctask.ContinueWith\<close> on the task of the data
  parent, \<^verbatim>\<open>StepAfterBoth\<close> with \<^verbatim>\<open>asynctask.AfterBoth\<close> on the tasks of both parents.
  The three combinators belong to the task library. A task is given by how it ended,
  with an error or with its result, and what a task that has ended hands over does not
  depend on the context. \<^verbatim>\<open>Start\<close> runs the body. \<^verbatim>\<open>ContinueWith\<close> takes the result of
  the parent task and, when the parent ended with an error, ends with that error and
  does not call the continuation; \<^verbatim>\<open>AfterBoth\<close> does so for the first parent and then
  for the second. The comment in the body says as much: they do not invoke
  \<^verbatim>\<open>instrumentedFunc\<close> if a preceding task failed.

  A started step instance is the step instance with its task, and the job instance is
  the mapping from step names to started step instances that \<^verbatim>\<open>GetStepInstance\<close> reads. The
  results of all tasks of a job instance have one type \<open>'v\<close> here.
\<close>

type_synonym 't Task = "error + 't"

record 'v StartedStepInstance = StepInstance +
  task :: "'v Task"

definition StepInstance_Waitable :: "'v StartedStepInstance \<Rightarrow> Waitable" where
  "StepInstance_Waitable depStep = (case task depStep of Inl err \<Rightarrow> Some err | Inr result \<Rightarrow> None)"

type_synonym ('p, 'r) TaskRun = "'p world \<Rightarrow> ((error + 'r) \<times> 'p world) option"

definition Start :: "('p, 'r) TaskRun \<Rightarrow> ('p, 'r) TaskRun" where
  "Start function ctx = function ctx"

definition ContinueWith :: "'t Task \<Rightarrow> ('t \<Rightarrow> ('p, 'r) TaskRun) \<Rightarrow> ('p, 'r) TaskRun" where
  "ContinueWith tsk next ctx =
     (case tsk of
        Inl err \<Rightarrow> Some (Inl err, ctx)
      | Inr result \<Rightarrow> next result ctx)"

definition AfterBoth :: "'t Task \<Rightarrow> 's Task \<Rightarrow> ('t \<Rightarrow> 's \<Rightarrow> ('p, 'r) TaskRun) \<Rightarrow> ('p, 'r) TaskRun" where
  "AfterBoth tskT tskS next ctx =
     (case tskT of
        Inl err \<Rightarrow> Some (Inl err, ctx)
      | Inr t \<Rightarrow>
          (case tskS of
             Inl err \<Rightarrow> Some (Inl err, ctx)
           | Inr s \<Rightarrow> next t s ctx))"

text \<open>
  The creators ignore the error of \<^verbatim>\<open>getDependsOnStepInstances\<close>, which then has returned
  no task. What a creator returns is, in the model, the run of the task it started;
  that it also adds the new step instance to the job instance is left out. The
  creators of \<^verbatim>\<open>StepAfter\<close> and \<^verbatim>\<open>StepAfterBoth\<close> also ignore whether the job instance has
  the parent's instance and convert what they got: on a missing instance the conversion
  panics, which is \<open>None\<close> here.
\<close>

definition precedingTasksOf :: "'p StepDefinition \<Rightarrow> (string \<rightharpoonup> 'v StartedStepInstance) \<Rightarrow> Waitable list" where
  "precedingTasksOf stepD ji =
     (case getDependsOnStepInstances stepD ji of
        Inl err \<Rightarrow> []
      | Inr precedingInstances \<Rightarrow> map StepInstance_Waitable precedingInstances)"

definition AddStep_instanceCreator ::
  "'p StepDefinition \<Rightarrow> string \<Rightarrow> ('p, 'r) StepFunc \<Rightarrow> (string \<rightharpoonup> 'v StartedStepInstance)
     \<Rightarrow> ('p, 'r) TaskRun" where
  "AddStep_instanceCreator stepD stepName stepFunc ji =
     (let precedingTasks = precedingTasksOf stepD ji in
      Start (AddStep_instrumentedFunc stepD stepName stepFunc precedingTasks))"

definition StepAfter_instanceCreator ::
  "'p StepDefinition \<Rightarrow> string \<Rightarrow> 'p StepDefinition \<Rightarrow> ('v \<Rightarrow> ('p, 'r) StepFunc)
     \<Rightarrow> (string \<rightharpoonup> 'v StartedStepInstance) \<Rightarrow> ('p, 'r) TaskRun option" where
  "StepAfter_instanceCreator stepD stepName parentStep stepFunc ji =
     (let precedingTasks = precedingTasksOf stepD ji in
      case ji (GetName parentStep) of
        None \<Rightarrow> None
      | Some parentStepInstance \<Rightarrow>
          Some (ContinueWith (task parentStepInstance)
                  (StepAfter_instrumentedFunc stepD stepName stepFunc precedingTasks)))"

definition StepAfterBoth_instanceCreator ::
  "'p StepDefinition \<Rightarrow> string \<Rightarrow> 'p StepDefinition \<Rightarrow> 'p StepDefinition
     \<Rightarrow> ('v \<Rightarrow> 'v \<Rightarrow> ('p, 'r) StepFunc) \<Rightarrow> (string \<rightharpoonup> 'v StartedStepInstance)
     \<Rightarrow> ('p, 'r) TaskRun option" where
  "StepAfterBoth_instanceCreator stepD stepName parentStepT parentStepS stepFunc ji =
     (let precedingTasks = precedingTasksOf stepD ji in
      case ji (GetName parentStepT) of
        None \<Rightarrow> None
      | Some parentStepTInstance \<Rightarrow>
          (case ji (GetName parentStepS) of
             None \<Rightarrow> None
           | Some parentStepSInstance \<Rightarrow>
               Some (AfterBoth (task parentStepTInstance) (task parentStepSInstance)
                       (StepAfterBoth_instrumentedFunc stepD stepName stepFunc precedingTasks))))"



text \<open>
  The user functions of the tests. \<^verbatim>\<open>getErrorFunc(err, count)\<close> makes a closure that
  returns \<open>err\<close> on its first \<^verbatim>\<open>count\<close> calls and nil afterwards; the steps of the test
  library return that error or, on nil, their result. \<open>errorInjected\<close> is such a step
  function run from a fresh closure, with \<open>elapsed\<close> the time a call takes. The error
  injected by \<^verbatim>\<open>TestJobStepRetry\<close> is returned on every call.
\<close>

definition errorInjected :: "error \<Rightarrow> nat \<Rightarrow> 'r \<Rightarrow> nat \<Rightarrow> ('p, 'r) StepFunc" where
  "errorInjected err n result elapsed w =
     (if invocations w < n then (Inl err, elapsed) else (Inr result, elapsed))"

definition alwaysFailing :: "error \<Rightarrow> nat \<Rightarrow> ('p, 'r) StepFunc" where
  "alwaysFailing err elapsed w = (Inl err, elapsed)"

section \<open>Sealing, start and wait\<close>

text \<open>
  Modelled from the spec: \<^verbatim>\<open>Start\<close>, the job instance and \<^verbatim>\<open>Wait\<close> are declared outside
  the files at hand. \<^verbatim>\<open>start\<close> seals the definition on its first call; of its effect only
  the definition it leaves is modelled. A job instance holds its step instances in
  insertion order, each with its task; a task is created, running, or terminal
  (completed, failed or canceled), and a terminal task keeps its error. \<^verbatim>\<open>wait\<close> awaits
  every task and returns the first step failure in insertion order, or nil; while a task
  is not terminal it returns a cancellation error if its context is cancelled and does
  not return otherwise (\<open>None\<close>).
\<close>

definition JobDefinition_Start :: "'p JobDefinition \<Rightarrow> 'p JobDefinition" where
  "JobDefinition_Start j = (if \<not> Sealed j then Seal j else j)"

definition WithContextEnrichment :: "'p ExecutionOptionPreparer" where
  "WithContextEnrichment options = options"

datatype TaskState = TaskCreated | TaskRunning | TaskCompleted | TaskFailed error | TaskCanceled error

fun terminal :: "TaskState \<Rightarrow> bool" where
  "terminal TaskCreated = False"
| "terminal TaskRunning = False"
| "terminal TaskCompleted = True"
| "terminal (TaskFailed err) = True"
| "terminal (TaskCanceled err) = True"

record JobInstance =
  stepTasks :: "(string \<times> TaskState) list"

definition terminated :: "JobInstance \<Rightarrow> bool" where
  "terminated ji = list_all (\<lambda>(stepName, tsk). terminal tsk) (stepTasks ji)"

fun firstFailure :: "(string \<times> TaskState) list \<Rightarrow> error option" where
  "firstFailure [] = None"
| "firstFailure ((stepName, TaskFailed err) # rest) = Some err"
| "firstFailure ((stepName, TaskCanceled err) # rest) = Some err"
| "firstFailure ((stepName, tsk) # rest) = firstFailure rest"

definition JobInstance_Wait :: "bool \<Rightarrow> JobInstance \<Rightarrow> error option option \<times> JobInstance" where
  "JobInstance_Wait ctxDone ji =
     (if terminated ji then (Some (firstFailure (stepTasks ji)), ji)
      else if ctxDone then (Some (Some (Errorf ''context canceled'')), ji)
      else (None, ji))"

text \<open>
  Two notions for stating what the builders check. A step definition is in the job when
  the job has a step of its name and that step is the same definition (the same
  pointer). The first name of a list that the job has no step for is the one
  \<^verbatim>\<open>getDependsOnSteps\<close> reports.
\<close>

definition inJob :: "'p JobDefinition \<Rightarrow> 'p StepDefinition \<Rightarrow> bool" where
  "inJob j step = (case GetStep j (GetName step) of None \<Rightarrow> False | Some get \<Rightarrow> ref get = ref step)"

definition firstMissing :: "'p JobDefinition \<Rightarrow> string list \<Rightarrow> string option" where
  "firstMissing j names = List.find (\<lambda>depStepName. GetStep j depStepName = None) names"

text \<open>
  The shape of a job definition that the builders keep: the root step's name is
  registered, the steps and the nodes of the graph have the same names, and each is
  stored under its own name. A job definition is gated when every step other than the
  root has an edge into it in the graph.
\<close>

definition hasEdge :: "'p StepDefinition Graph \<Rightarrow> string \<Rightarrow> string \<Rightarrow> bool" where
  "hasEdge g a b = (\<exists>e\<in>set (edgesOf g a). GetName (From e) = a \<and> GetName (To e) = b)"

definition wellFormed :: "'p JobDefinition \<Rightarrow> bool" where
  "wellFormed j =
     (GetStep j (GetName (RootStep j)) \<noteq> None
      \<and> (\<forall>n. (nodes (stepsDag j) n = None) = (steps j n = None))
      \<and> (\<forall>n step. steps j n = Some step \<longrightarrow> GetName step = n)
      \<and> (\<forall>n step. nodes (stepsDag j) n = Some step \<longrightarrow> GetName step = n))"

definition gated :: "'p JobDefinition \<Rightarrow> bool" where
  "gated j = (\<forall>n. steps j n \<noteq> None \<and> n \<noteq> GetName (RootStep j) \<longrightarrow> (\<exists>p. hasEdge (stepsDag j) p n))"

text \<open>
  Two auxiliary notions for the proofs: a graph whose nodes are stored under their own
  names, and what a successful call of a builder does, in one form for the four
  builders: it registers the new definition, under the name it was given, with a
  non-empty list of preceding steps that are steps of the job and whose names are the
  names the definition depends on.
\<close>

definition keyed :: "'p StepDefinition Graph \<Rightarrow> bool" where
  "keyed g = (\<forall>n step. nodes g n = Some step \<longrightarrow> GetName step = n)"

definition registers ::
  "'p JobDefinition \<Rightarrow> string \<Rightarrow> 'p StepDefinition \<Rightarrow> 'p JobDefinition \<Rightarrow> bool" where
  "registers j stepName stepD j' =
     (\<exists>ps. ps \<noteq> [] \<and> map GetName ps = DependsOn stepD \<and> (\<forall>p\<in>set ps. steps j (GetName p) \<noteq> None)
        \<and> GetName stepD = stepName \<and> j' = registerStep stepD ps j)"

section \<open>Examples\<close>

text \<open>
  Two steps of the test job, \<^verbatim>\<open>CheckAuth\<close> without a retry policy and \<^verbatim>\<open>QueryTable1\<close>
  with the linear policy, the state in which the body of a new step instance starts,
  and the error that \<^verbatim>\<open>TestJobStepRetry\<close> injects. Further down: the step
  \<^verbatim>\<open>GetConnection\<close> as \<^verbatim>\<open>StepAfter\<close> makes it on the parent \<^verbatim>\<open>CheckAuth\<close>, a job instance in
  which the root has yielded the input and \<^verbatim>\<open>CheckAuth\<close> has failed with the injected
  error, a step \<^verbatim>\<open>ServerName\<close> as \<^verbatim>\<open>StepFromJobInput\<close> makes it when it is given the option
  \<^verbatim>\<open>ExecuteAfter\<close> of \<^verbatim>\<open>CheckAuth\<close>, a user function that succeeds on every call, and the
  state of a new step instance under a context that is cancelled at a given time.
\<close>

definition checkAuthStep :: "unit StepDefinition" where
  "checkAuthStep = newStepDefinition 3 ''CheckAuth'' stepTypeTask []"


definition freshWorld :: "'p StepDefinition \<Rightarrow> 'p \<Rightarrow> 'p world" where
  "freshWorld stepD p =
     \<lparr>clock = 0, ctxDoneAt = None, invocations = 0, stepInstance = newStepInstance stepD,
      policyState = p\<rparr>"

definition sqlSummaryJob :: "unit JobDefinition" where
  "sqlSummaryJob = snd (AddStep 1 (NewJobDefinition 0 ''sqlSummaryJob'') ''CheckAuth'' [])"

definition otherJobStep :: "unit StepDefinition" where
  "otherJobStep = newStepDefinition 9 ''GetConnection'' stepTypeTask []"

definition queryError :: error where
  "queryError = Errorf ''query exeeded memory limit''"

definition getConnectionStep :: "unit StepDefinition" where
  "getConnectionStep = newStepDefinition 4 ''GetConnection'' stepTypeTask [ExecuteAfter checkAuthStep]"

definition getConnectionFunc :: "unit \<Rightarrow> (unit, unit) StepFunc" where
  "getConnectionFunc t = errorInjected queryError 0 () 5"

definition failedCheckAuth :: "unit StartedStepInstance" where
  "failedCheckAuth =
     \<lparr>definitionName = ''CheckAuth'', state = StepStateFailed,
      executionData = \<lparr>StartTime = 0, Duration = 5, Retried = None\<rparr>,
      task = Inl (newStepError ''CheckAuth'' queryError)\<rparr>"

definition jobRootStep :: "unit StepDefinition" where
  "jobRootStep = newStepDefinition 0 ''sqlSummaryJob'' stepTypeRoot []"

definition startedRoot :: "unit StartedStepInstance" where
  "startedRoot =
     \<lparr>definitionName = ''sqlSummaryJob'', state = StepStateCompleted,
      executionData = \<lparr>StartTime = 0, Duration = 0, Retried = None\<rparr>,
      task = Inr ()\<rparr>"

definition failedAuthJob :: "string \<rightharpoonup> unit StartedStepInstance" where
  "failedAuthJob = [''sqlSummaryJob'' \<mapsto> startedRoot, ''CheckAuth'' \<mapsto> failedCheckAuth]"

definition serverNameStep :: "unit StepDefinition" where
  "serverNameStep =
     newStepDefinition 5 ''ServerName'' stepTypeTask [ExecuteAfter checkAuthStep, ExecuteAfter jobRootStep]"

definition canceledWorld :: "'p StepDefinition \<Rightarrow> 'p \<Rightarrow> Time \<Rightarrow> 'p world" where
  "canceledWorld stepD p t = (freshWorld stepD p)\<lparr>ctxDoneAt := Some t\<rparr>"

definition finishedJob :: JobInstance where
  "finishedJob =
     \<lparr>stepTasks = [(''CheckAuth'', TaskCompleted), (''QueryTable1'', TaskFailed queryError),
                  (''Summarize'', TaskFailed (newJobError ErrPrecedentStepFailure []))]\<rparr>"

section \<open>Properties of the graph container\<close>

text \<open>
  C8. \<^verbatim>\<open>AddNode\<close> returns the duplicate error exactly when a node with the same
  \<^verbatim>\<open>DotSpec().ID\<close> is already in the graph, and then leaves the graph as it is; otherwise
  it returns nil and stores the node under its ID. \<^verbatim>\<open>Connect\<close> returns the
  missing-endpoint error exactly when one of the two IDs is not a node of the graph, and
  then leaves the graph as it is; otherwise it returns nil and appends an edge from the
  node stored under \<open>from\<close> to the node stored under \<open>to\<close> to the out-edges of \<open>from\<close>.
\<close>

theorem C8_AddNode_Connect:
  "(fst (AddNode DotSpec n g) = Some ErrDuplicateNode) = (ID (DotSpec n) \<in> dom (nodes g))
   \<and> (fst (AddNode DotSpec n g) = None) = (ID (DotSpec n) \<notin> dom (nodes g))
   \<and> snd (AddNode DotSpec n g) =
       (if ID (DotSpec n) \<in> dom (nodes g) then g
        else g\<lparr>nodes := (nodes g)(ID (DotSpec n) \<mapsto> n)\<rparr>)
   \<and> (fst (Connect from to g) = Some ErrConnectNotExistingNode)
       = (from \<notin> dom (nodes g) \<or> to \<notin> dom (nodes g))
   \<and> (fst (Connect from to g) = None) = (from \<in> dom (nodes g) \<and> to \<in> dom (nodes g))
   \<and> snd (Connect from to g) =
       (if from \<in> dom (nodes g) \<and> to \<in> dom (nodes g)
        then g\<lparr>nodeEdges := (nodeEdges g)(from \<mapsto>
               edgesOf g from @ [\<lparr>From = the (nodes g from), To = the (nodes g to)\<rparr>])\<rparr>
        else g)"
  by (auto simp: AddNode_def Connect_def Let_def split: option.splits)


lemma nodes_twoNodes: "nodes twoNodes = [''a'' \<mapsto> ''a'', ''b'' \<mapsto> ''b'']"
  by (simp add: twoNodes_def AddNode_def NewGraph_def plainNode_def Let_def)

lemma nodeEdges_twoNodes: "nodeEdges twoNodes = Map.empty"
  by (simp add: twoNodes_def AddNode_def NewGraph_def plainNode_def Let_def)

theorem C8_AddNode_Connect_witness:
  "fst (AddNode plainNode ''a'' (NewGraph plainEdge)) = None
   \<and> fst (AddNode plainNode ''a'' twoNodes) = Some ErrDuplicateNode
   \<and> snd (AddNode plainNode ''a'' twoNodes) = twoNodes
   \<and> fst (Connect ''a'' ''c'' twoNodes) = Some ErrConnectNotExistingNode
   \<and> snd (Connect ''a'' ''c'' twoNodes) = twoNodes
   \<and> fst (Connect ''a'' ''b'' twoNodes) = None
   \<and> nodeEdges (snd (Connect ''a'' ''b'' twoNodes)) ''a'' = Some [\<lparr>From = ''a'', To = ''b''\<rparr>]"
  using C8_AddNode_Connect[of plainNode "''a''" "NewGraph plainEdge" "''a''" "''b''"]
    C8_AddNode_Connect[of plainNode "''a''" "twoNodes" "''a''" "''c''"]
    C8_AddNode_Connect[of plainNode "''a''" "twoNodes" "''a''" "''b''"]
  by (simp add: nodes_twoNodes nodeEdges_twoNodes edgesOf_def NewGraph_def plainNode_def)

subsection \<open>Rendering\<close>

lemma mset_rangeValues:
  assumes "rangeOrder ks m" and "rangeOrder ks' m"
  shows "mset (rangeValues ks m) = mset (rangeValues ks' m)"
proof -
  have unfolded: "List.map_filter m xs = map the (filter (\<lambda>x. x \<noteq> None) (map m xs))" for xs
    by (simp add: List.map_filter_def filter_map comp_def)
  have "mset ks = mset ks'"
    using assms by (simp add: rangeOrder_def set_eq_iff_mset_eq_distinct[symmetric])
  then have "mset (map m ks) = mset (map m ks')"
    by (metis mset_map)
  then have "mset (map the (filter (\<lambda>x. x \<noteq> None) (map m ks)))
      = mset (map the (filter (\<lambda>x. x \<noteq> None) (map m ks')))"
    by (metis mset_filter mset_map)
  then show ?thesis
    by (simp add: rangeValues_def unfolded)
qed

lemma mset_concat_cong: "mset xss = mset yss \<Longrightarrow> mset (concat xss) = mset (concat yss)"
  by (metis mset_concat sum_mset_sum_list mset_map)

text \<open>
  C4, as the claim states it, fails: the graph with the two nodes \<open>a\<close> and \<open>b\<close> and no
  edge is rendered once with \<^verbatim>\<open>range\<close> visiting \<open>a\<close> first and once with \<open>b\<close> first, both
  orders being orders the Go runtime may take, and the two texts differ.
\<close>

theorem C4_render_twice_counterexample:
  "rangeOrder [''a'', ''b''] (nodes twoNodes) \<and> rangeOrder [''b'', ''a''] (nodes twoNodes)
   \<and> rangeOrder [] (nodeEdges twoNodes)
   \<and> fst (ToDotGraph digraphTemplate plainNode [''a'', ''b''] [] twoNodes)
       \<noteq> fst (ToDotGraph digraphTemplate plainNode [''b'', ''a''] [] twoNodes)"
  by (simp add: rangeOrder_def nodes_twoNodes nodeEdges_twoNodes ToDotGraph_def
      digraphTemplate_def templateInput_def rangeValues_def List.map_filter_simps
      nodeLine_def quoted_def escapeDot_def plainNode_def insert_commute)

text \<open>
  C4, amended. Two renderings of a graph that is not mutated in between hand the template
  the same node specs and the same edge specs, as multisets: whatever orders \<^verbatim>\<open>range\<close>
  takes over the two maps, only the order of the node lines and of the groups of edges
  that leave one node can differ between the two texts.
\<close>

theorem C4_render_same_up_to_order:
  assumes "rangeOrder ks (nodes g)" and "rangeOrder ks' (nodes g)"
    and "rangeOrder es (nodeEdges g)" and "rangeOrder es' (nodeEdges g)"
  shows "mset (Nodes (templateInput DotSpec ks es g)) = mset (Nodes (templateInput DotSpec ks' es' g))
    \<and> mset (Edges (templateInput DotSpec ks es g)) = mset (Edges (templateInput DotSpec ks' es' g))"
proof
  have "mset (rangeValues ks (nodes g)) = mset (rangeValues ks' (nodes g))"
    using assms(1,2) by (rule mset_rangeValues)
  then show "mset (Nodes (templateInput DotSpec ks es g)) = mset (Nodes (templateInput DotSpec ks' es' g))"
    by (simp add: templateInput_def)
next
  let ?spec = "map (\<lambda>edge. edgeSpecFunc g (From edge) (To edge))"
  have "mset (rangeValues es (nodeEdges g)) = mset (rangeValues es' (nodeEdges g))"
    using assms(3,4) by (rule mset_rangeValues)
  then have "mset (map ?spec (rangeValues es (nodeEdges g))) = mset (map ?spec (rangeValues es' (nodeEdges g)))"
    by simp
  then show "mset (Edges (templateInput DotSpec ks es g)) = mset (Edges (templateInput DotSpec ks' es' g))"
    by (simp add: templateInput_def mset_concat_cong)
qed

theorem C4_render_same_up_to_order_witness:
  "rangeOrder [''a'', ''b''] (nodes twoNodes) \<and> rangeOrder [''b'', ''a''] (nodes twoNodes)
   \<and> rangeOrder [] (nodeEdges twoNodes)
   \<and> mset (Nodes (templateInput plainNode [''a'', ''b''] [] twoNodes))
       = mset (Nodes (templateInput plainNode [''b'', ''a''] [] twoNodes))
   \<and> mset (Nodes (templateInput plainNode [''a'', ''b''] [] twoNodes)) = {#plainNode ''a'', plainNode ''b''#}"
proof -
  have o1: "rangeOrder [''a'', ''b''] (nodes twoNodes)"
    and o2: "rangeOrder [''b'', ''a''] (nodes twoNodes)"
    and o3: "rangeOrder [] (nodeEdges twoNodes)"
    by (auto simp: rangeOrder_def nodes_twoNodes nodeEdges_twoNodes)
  have "mset (Nodes (templateInput plainNode [''a'', ''b''] [] twoNodes)) = {#plainNode ''a'', plainNode ''b''#}"
    by (simp add: templateInput_def rangeValues_def List.map_filter_simps nodes_twoNodes)
  with o1 o2 o3 C4_render_same_up_to_order[OF o1 o2 o3 o3, of plainNode] show ?thesis
    by simp
qed

section \<open>Properties of the instrumented body\<close>

subsection \<open>Reading the fields of the state\<close>

lemma firstError_None_iff: "(firstError tasks = None) = (\<forall>t\<in>set tasks. t = None)"
  by (induction tasks rule: firstError.induct) auto


lemma invoke_fields [simp]:
  "fst (invoke f w) = fst (f w)"
  "clock (snd (invoke f w)) = clock w + int (snd (f w))"
  "invocations (snd (invoke f w)) = Suc (invocations w)"
  "stepInstance (snd (invoke f w)) = stepInstance w"
  "policyState (snd (invoke f w)) = policyState w"
  "ctxDoneAt (snd (invoke f w)) = ctxDoneAt w"
  by (simp_all add: invoke_def split: prod.splits)

lemma updExecutionData_fields [simp]:
  "clock (updExecutionData g w) = clock w"
  "invocations (updExecutionData g w) = invocations w"
  "policyState (updExecutionData g w) = policyState w"
  "ctxDoneAt (updExecutionData g w) = ctxDoneAt w"
  "state (stepInstance (updExecutionData g w)) = state (stepInstance w)"
  "definitionName (stepInstance (updExecutionData g w)) = definitionName (stepInstance w)"
  "executionData (stepInstance (updExecutionData g w)) = g (executionData (stepInstance w))"
  by (simp_all add: updExecutionData_def)

lemma setState_fields [simp]:
  "clock (setState s w) = clock w"
  "invocations (setState s w) = invocations w"
  "policyState (setState s w) = policyState w"
  "ctxDoneAt (setState s w) = ctxDoneAt w"
  "state (stepInstance (setState s w)) = s"
  "definitionName (stepInstance (setState s w)) = definitionName (stepInstance w)"
  "executionData (stepInstance (setState s w)) = executionData (stepInstance w)"
  by (simp_all add: setState_def)

lemma sleep_fields [simp]:
  "invocations (sleep d w) = invocations w"
  "policyState (sleep d w) = policyState w"
  "ctxDoneAt (sleep d w) = ctxDoneAt w"
  "stepInstance (sleep d w) = stepInstance w"
  by (simp_all add: sleep_def Let_def)



lemma countRetry_fields [simp]:
  "clock (countRetry w) = clock w"
  "invocations (countRetry w) = invocations w"
  "policyState (countRetry w) = policyState w"
  "ctxDoneAt (countRetry w) = ctxDoneAt w"
  "state (stepInstance (countRetry w)) = state (stepInstance w)"
  "definitionName (stepInstance (countRetry w)) = definitionName (stepInstance w)"
  "StartTime (executionData (stepInstance (countRetry w))) = StartTime (executionData (stepInstance w))"
  "Duration (executionData (stepInstance (countRetry w))) = Duration (executionData (stepInstance w))"
  "Retried (executionData (stepInstance (countRetry w)))
     = map_option (\<lambda>r. r\<lparr>Count := Count r + 1\<rparr>) (Retried (executionData (stepInstance w)))"
  by (simp_all add: countRetry_def)



subsection \<open>What a run of the retry driver leaves\<close>






subsection \<open>Single rounds of the driver, and runs that are sure to return\<close>








subsection \<open>The body around the driver\<close>

lemma WaitAll_failed: "(\<exists>t\<in>set tasks. t \<noteq> None) \<Longrightarrow> \<exists>err. WaitAll w tasks = Some err"
  using firstError_None_iff[of tasks] by (cases "firstError tasks") (auto simp: WaitAll_def)




subsection \<open>Facts about the examples\<close>

lemma freshWorld_fields [simp]:
  "clock (freshWorld stepD p) = 0"
  "ctxDoneAt (freshWorld stepD p) = None"
  "invocations (freshWorld stepD p) = 0"
  "stepInstance (freshWorld stepD p) = newStepInstance stepD"
  "policyState (freshWorld stepD p) = p"
  by (simp_all add: freshWorld_def)

lemma errorInjected_fst [simp]:
  "fst (errorInjected err n result elapsed v) = (if invocations v < n then Inl err else Inr result)"
  by (simp add: errorInjected_def)

lemma alwaysFailing_fst [simp]: "fst (alwaysFailing err elapsed v) = Inl err"
  by (simp add: alwaysFailing_def)


lemma checkAuthStep_policy [simp]: "RetryPolicy (executionOptions checkAuthStep) = None"
  by (simp add: checkAuthStep_def newStepDefinition_def)


subsection \<open>Precedent failure\<close>

lemma instrumentedFunc_precedent:
  "WaitAll w precedingTasks = Some err \<Longrightarrow>
     instrumentedFunc stepD stepName stepFunc precedingTasks w
       = Some (Inl (newJobError ErrPrecedentStepFailure []), w)"
  by (simp add: instrumentedFunc_def)

lemma precedingTasksOf_failed:
  assumes "getDependsOnStepInstances stepD ji = Inr precedingInstances"
    and "\<exists>i\<in>set precedingInstances. isl (task i)"
  shows "\<exists>err. WaitAll w (precedingTasksOf stepD ji) = Some err"
proof -
  from assms(2) obtain i where i: "i \<in> set precedingInstances" "isl (task i)"
    by blast
  from i(2) have "StepInstance_Waitable i \<noteq> None"
    by (cases "task i") (simp_all add: StepInstance_Waitable_def)
  with i(1) have "\<exists>t\<in>set (map StepInstance_Waitable precedingInstances). t \<noteq> None"
    by auto
  then show ?thesis
    using assms(1) by (simp add: precedingTasksOf_def WaitAll_failed)
qed

text \<open>
  C1, as the claim states it, fails for a step with a data parent. In a job instance in
  which \<^verbatim>\<open>CheckAuth\<close> has failed with its step error, the task of the step
  \<^verbatim>\<open>GetConnection\<close>, made by \<^verbatim>\<open>StepAfter\<close> on that parent, ends with the parent's error, of
  code \<^verbatim>\<open>ErrStepFailed\<close>: the instrumented body is not entered, and no error of code
  \<^verbatim>\<open>ErrPrecedentStepFailure\<close> is made.
\<close>

theorem C1_data_parent_counterexample:
  "getDependsOnStepInstances getConnectionStep failedAuthJob = Inr [failedCheckAuth]
   \<and> isl (task failedCheckAuth)
   \<and> StepAfter_instanceCreator getConnectionStep ''GetConnection'' checkAuthStep
        getConnectionFunc failedAuthJob \<noteq> None
   \<and> the (StepAfter_instanceCreator getConnectionStep ''GetConnection'' checkAuthStep
             getConnectionFunc failedAuthJob)
        (freshWorld getConnectionStep ())
       = Some (Inl (JobError ErrStepFailed ''CheckAuth'' (Some queryError) []),
               freshWorld getConnectionStep ())
   \<and> JobError ErrStepFailed ''CheckAuth'' (Some queryError) []
       \<noteq> newJobError ErrPrecedentStepFailure []"
  by (simp add: getDependsOnStepInstances_def getConnectionStep_def checkAuthStep_def
      newStepDefinition_def ExecuteAfter_def DependsOn_def GetName_def failedAuthJob_def
      failedCheckAuth_def StepAfter_instanceCreator_def ContinueWith_def newStepError_def
      newJobError_def Let_def)

text \<open>
  C1, amended. For a step in a job instance that has an instance for each step it depends
  on: if the task of one of them has failed, the user function is not called, and the
  task of the step ends in the state it started in. For a step made by \<^verbatim>\<open>AddStep\<close> the
  instrumented body returns the error of code \<^verbatim>\<open>ErrPrecedentStepFailure\<close>. For a step
  made by \<^verbatim>\<open>StepAfter\<close> whose data parent has failed, the body is not entered and the task
  ends with the parent's error; otherwise its body returns the error of code
  \<^verbatim>\<open>ErrPrecedentStepFailure\<close>. For a step made by \<^verbatim>\<open>StepAfterBoth\<close> the same holds with the
  error of the first of the two parents that has failed. The result is the same whatever
  the user function is.
\<close>

theorem C1_precedent_failure:
  "(getDependsOnStepInstances stepD ji = Inr precedingInstances
      \<and> (\<exists>i\<in>set precedingInstances. isl (task i)) \<longrightarrow>
      AddStep_instanceCreator stepD stepName stepFunc ji ctx
        = Some (Inl (newJobError ErrPrecedentStepFailure []), ctx))
   \<and> (ji (GetName parentStep) = Some parent
      \<and> (isl (task parent)
          \<or> getDependsOnStepInstances stepD ji = Inr precedingInstances
            \<and> (\<exists>i\<in>set precedingInstances. isl (task i))) \<longrightarrow>
      (\<exists>run. StepAfter_instanceCreator stepD stepName parentStep continueFunc ji = Some run
         \<and> run ctx = Some (Inl (case task parent of
                                   Inl err \<Rightarrow> err
                                 | Inr t \<Rightarrow> newJobError ErrPrecedentStepFailure []), ctx)))
   \<and> (ji (GetName parentStepT) = Some parentT \<and> ji (GetName parentStepS) = Some parentS
      \<and> (isl (task parentT) \<or> isl (task parentS)
          \<or> getDependsOnStepInstances stepD ji = Inr precedingInstances
            \<and> (\<exists>i\<in>set precedingInstances. isl (task i))) \<longrightarrow>
      (\<exists>run. StepAfterBoth_instanceCreator stepD stepName parentStepT parentStepS afterBothFunc ji = Some run
         \<and> run ctx = Some (Inl (case task parentT of
                                   Inl err \<Rightarrow> err
                                 | Inr t \<Rightarrow>
                                     (case task parentS of
                                        Inl err \<Rightarrow> err
                                      | Inr s \<Rightarrow> newJobError ErrPrecedentStepFailure [])), ctx)))
   \<and> newJobError ErrPrecedentStepFailure [] = JobError ErrPrecedentStepFailure [] None []"
proof (intro conjI impI)
  assume h: "getDependsOnStepInstances stepD ji = Inr precedingInstances
      \<and> (\<exists>i\<in>set precedingInstances. isl (task i))"
  from precedingTasksOf_failed[of stepD ji precedingInstances ctx] h
  obtain err where "WaitAll ctx (precedingTasksOf stepD ji) = Some err"
    by blast
  then show "AddStep_instanceCreator stepD stepName stepFunc ji ctx
        = Some (Inl (newJobError ErrPrecedentStepFailure []), ctx)"
    by (simp add: AddStep_instanceCreator_def Start_def AddStep_instrumentedFunc_def
        instrumentedFunc_precedent)
next
  assume h: "ji (GetName parentStep) = Some parent
      \<and> (isl (task parent)
          \<or> getDependsOnStepInstances stepD ji = Inr precedingInstances
            \<and> (\<exists>i\<in>set precedingInstances. isl (task i)))"
  show "\<exists>run. StepAfter_instanceCreator stepD stepName parentStep continueFunc ji = Some run
         \<and> run ctx = Some (Inl (case task parent of
                                   Inl err \<Rightarrow> err
                                 | Inr t \<Rightarrow> newJobError ErrPrecedentStepFailure []), ctx)"
  proof (cases "task parent")
    case (Inl err)
    with h show ?thesis
      by (simp add: StepAfter_instanceCreator_def ContinueWith_def)
  next
    case (Inr t)
    with h precedingTasksOf_failed[of stepD ji precedingInstances ctx]
    obtain err where "WaitAll ctx (precedingTasksOf stepD ji) = Some err"
      by auto
    with h Inr show ?thesis
      by (simp add: StepAfter_instanceCreator_def ContinueWith_def StepAfter_instrumentedFunc_def
          instrumentedFunc_precedent)
  qed
next
  assume h: "ji (GetName parentStepT) = Some parentT \<and> ji (GetName parentStepS) = Some parentS
      \<and> (isl (task parentT) \<or> isl (task parentS)
          \<or> getDependsOnStepInstances stepD ji = Inr precedingInstances
            \<and> (\<exists>i\<in>set precedingInstances. isl (task i)))"
  show "\<exists>run. StepAfterBoth_instanceCreator stepD stepName parentStepT parentStepS afterBothFunc ji = Some run
         \<and> run ctx = Some (Inl (case task parentT of
                                   Inl err \<Rightarrow> err
                                 | Inr t \<Rightarrow>
                                     (case task parentS of
                                        Inl err \<Rightarrow> err
                                      | Inr s \<Rightarrow> newJobError ErrPrecedentStepFailure [])), ctx)"
  proof (cases "task parentT")
    case (Inl err)
    with h show ?thesis
      by (simp add: StepAfterBoth_instanceCreator_def AfterBoth_def)
  next
    case t: (Inr t)
    show ?thesis
    proof (cases "task parentS")
      case (Inl err)
      with h t show ?thesis
        by (simp add: StepAfterBoth_instanceCreator_def AfterBoth_def)
    next
      case (Inr s)
      with h t precedingTasksOf_failed[of stepD ji precedingInstances ctx]
      obtain err where "WaitAll ctx (precedingTasksOf stepD ji) = Some err"
        by auto
      with h t Inr show ?thesis
        by (simp add: StepAfterBoth_instanceCreator_def AfterBoth_def
            StepAfterBoth_instrumentedFunc_def instrumentedFunc_precedent)
    qed
  qed
next
  show "newJobError ErrPrecedentStepFailure [] = JobError ErrPrecedentStepFailure [] None []"
    by (simp add: newJobError_def)
qed

theorem C1_precedent_failure_witness:
  "getDependsOnStepInstances getConnectionStep failedAuthJob = Inr [failedCheckAuth]
   \<and> isl (task failedCheckAuth)
   \<and> AddStep_instanceCreator getConnectionStep ''GetConnection''
        (errorInjected queryError 0 () 5 :: (unit, unit) StepFunc) failedAuthJob
        (freshWorld getConnectionStep ())
       = Some (Inl (JobError ErrPrecedentStepFailure [] None []), freshWorld getConnectionStep ())
   \<and> invocations (freshWorld getConnectionStep ()) = 0
   \<and> getDependsOnStepInstances serverNameStep failedAuthJob = Inr [failedCheckAuth, startedRoot]
   \<and> failedAuthJob (GetName jobRootStep) = Some startedRoot
   \<and> \<not> isl (task startedRoot)
   \<and> the (StepAfter_instanceCreator serverNameStep ''ServerName'' jobRootStep
             getConnectionFunc failedAuthJob)
        (freshWorld serverNameStep ())
       = Some (Inl (JobError ErrPrecedentStepFailure [] None []), freshWorld serverNameStep ())"
proof -
  have resolved: "getDependsOnStepInstances getConnectionStep failedAuthJob = Inr [failedCheckAuth]"
    by (simp add: getDependsOnStepInstances_def getConnectionStep_def checkAuthStep_def
        newStepDefinition_def ExecuteAfter_def DependsOn_def GetName_def failedAuthJob_def)
  have failed: "isl (task failedCheckAuth)"
    by (simp add: failedCheckAuth_def)
  from C1_precedent_failure[of getConnectionStep failedAuthJob "[failedCheckAuth]" "''GetConnection''"
      "errorInjected queryError 0 () 5 :: (unit, unit) StepFunc" "freshWorld getConnectionStep ()",
      THEN conjunct1] resolved failed
  have added: "AddStep_instanceCreator getConnectionStep ''GetConnection''
        (errorInjected queryError 0 () 5 :: (unit, unit) StepFunc) failedAuthJob
        (freshWorld getConnectionStep ())
       = Some (Inl (JobError ErrPrecedentStepFailure [] None []), freshWorld getConnectionStep ())"
    by (simp add: newJobError_def)
  have resolved2: "getDependsOnStepInstances serverNameStep failedAuthJob = Inr [failedCheckAuth, startedRoot]"
    by (simp add: getDependsOnStepInstances_def serverNameStep_def checkAuthStep_def jobRootStep_def
        newStepDefinition_def ExecuteAfter_def DependsOn_def GetName_def failedAuthJob_def)
  have parent: "failedAuthJob (GetName jobRootStep) = Some startedRoot"
    by (simp add: jobRootStep_def newStepDefinition_def GetName_def failedAuthJob_def)
  have yielded: "task startedRoot = Inr ()"
    by (simp add: startedRoot_def)
  from C1_precedent_failure[where stepD = serverNameStep and ji = failedAuthJob
      and precedingInstances = "[failedCheckAuth, startedRoot]" and parentStep = jobRootStep
      and parent = startedRoot and stepName = "''ServerName''" and continueFunc = getConnectionFunc
      and ctx = "freshWorld serverNameStep ()",
      THEN conjunct2, THEN conjunct1] resolved2 parent failed
  have "\<exists>run. StepAfter_instanceCreator serverNameStep ''ServerName'' jobRootStep
                getConnectionFunc failedAuthJob = Some run
          \<and> run (freshWorld serverNameStep ())
              = Some (Inl (JobError ErrPrecedentStepFailure [] None []), freshWorld serverNameStep ())"
    by (simp add: yielded newJobError_def)
  then have after: "the (StepAfter_instanceCreator serverNameStep ''ServerName'' jobRootStep
             getConnectionFunc failedAuthJob)
        (freshWorld serverNameStep ())
       = Some (Inl (JobError ErrPrecedentStepFailure [] None []), freshWorld serverNameStep ())"
    by auto
  from resolved failed added resolved2 parent yielded after show ?thesis
    by simp
qed

text \<open>
  C10. When the instrumented body of a step ends with an error of code
  \<^verbatim>\<open>ErrPrecedentStepFailure\<close>, the step instance is as it was before the body ran: the
  state is not set to Failed, and on a new step instance it is still Pending, with the
  start time and the duration at their zero values and no retry report.
\<close>

theorem C10_precedent_failure_frame:
  assumes "AddStep_instrumentedFunc stepD stepName stepFunc precedingTasks w
             = Some (Inl (JobError ErrPrecedentStepFailure sn cause msg), w')
         \<or> StepAfter_instrumentedFunc stepD stepName stepFunc1 precedingTasks t w
             = Some (Inl (JobError ErrPrecedentStepFailure sn cause msg), w')
         \<or> StepAfterBoth_instrumentedFunc stepD stepName stepFunc2 precedingTasks t s w
             = Some (Inl (JobError ErrPrecedentStepFailure sn cause msg), w')"
  shows "stepInstance w' = stepInstance w
       \<and> (stepInstance w = newStepInstance stepD \<longrightarrow>
            state (stepInstance w') = StepStatePending
          \<and> executionData (stepInstance w') = \<lparr>StartTime = 0, Duration = 0, Retried = None\<rparr>)"
  using assms
  by (auto simp: AddStep_instrumentedFunc_def StepAfter_instrumentedFunc_def
      StepAfterBoth_instrumentedFunc_def instrumentedFunc_def newJobError_def newStepError_def
      newStepInstance_def Let_def
      split: option.splits sum.splits prod.splits)

theorem C10_precedent_failure_frame_witness:
  "AddStep_instrumentedFunc checkAuthStep ''CheckAuth'' (alwaysFailing queryError 5)
      [Some queryError] (freshWorld checkAuthStep ())
     = (Some (Inl (JobError ErrPrecedentStepFailure [] None []), freshWorld checkAuthStep ())
         :: ((error + unit) \<times> unit world) option)
   \<and> state (stepInstance (freshWorld checkAuthStep ())) = StepStatePending
   \<and> executionData (stepInstance (freshWorld checkAuthStep ()))
       = \<lparr>StartTime = 0, Duration = 0, Retried = None\<rparr>"
proof -
  have run: "AddStep_instrumentedFunc checkAuthStep ''CheckAuth'' (alwaysFailing queryError 5)
      [Some queryError] (freshWorld checkAuthStep ())
     = (Some (Inl (JobError ErrPrecedentStepFailure [] None []), freshWorld checkAuthStep ())
         :: ((error + unit) \<times> unit world) option)"
    by (simp add: AddStep_instrumentedFunc_def instrumentedFunc_def newJobError_def WaitAll_def
        ctxCanceled_def)
  from C10_precedent_failure_frame[OF disjI1, OF run] run show ?thesis
    by simp
qed

subsection \<open>A body whose predecessors succeeded\<close>

lemma canceledWorld_fields [simp]:
  "clock (canceledWorld stepD p t) = 0"
  "ctxDoneAt (canceledWorld stepD p t) = Some t"
  "invocations (canceledWorld stepD p t) = 0"
  "stepInstance (canceledWorld stepD p t) = newStepInstance stepD"
  "policyState (canceledWorld stepD p t) = p"
  by (simp_all add: canceledWorld_def freshWorld_def)




subsection \<open>Retries\<close>





section \<open>Properties of the builders\<close>

subsection \<open>Resolving the names a step depends on\<close>

lemma getDependsOnSteps_loop_missing:
  "firstMissing j names = Some d \<Longrightarrow>
     getDependsOnSteps_loop names j acc = Inl (Errorf (''step ['' @ d @ ''] not found''))"
  by (induction names arbitrary: acc) (auto simp: firstMissing_def split: option.splits if_splits)

lemma getDependsOnSteps_loop_found:
  "firstMissing j names = None \<Longrightarrow>
     getDependsOnSteps_loop names j acc = Inr (acc @ map (\<lambda>n. the (GetStep j n)) names)"
  by (induction names arbitrary: acc) (auto simp: firstMissing_def split: option.splits if_splits)

lemma firstMissing_None: "(firstMissing j names = None) = (\<forall>d\<in>set names. GetStep j d \<noteq> None)"
  by (induction names) (auto simp: firstMissing_def)

lemma DependsOn_ExecuteAfter:
  "DependsOn (newStepDefinition r n k (ods @ [ExecuteAfter p]))
     = DependsOn (newStepDefinition r n k ods) @ [GetName p]"
  by (simp add: DependsOn_def newStepDefinition_def ExecuteAfter_def)

lemma DependsOn_ExecuteAfter2:
  "DependsOn (newStepDefinition r n k (ods @ [ExecuteAfter p, ExecuteAfter q]))
     = DependsOn (newStepDefinition r n k ods) @ [GetName p, GetName q]"
  by (simp add: DependsOn_def newStepDefinition_def ExecuteAfter_def)

lemma StepAfter_not_inJob:
  "\<not> inJob j parentStep \<Longrightarrow>
     StepAfter r j stepName parentStep ods
       = (Inl (Errorf (''step ['' @ GetName parentStep @ ''] not found in job'')), j)"
  by (auto simp: StepAfter_def inJob_def split: option.splits)

lemma StepAfter_inJob:
  "inJob j parentStep \<Longrightarrow>
     StepAfter r j stepName parentStep ods
       = (let stepD = newStepDefinition r stepName stepTypeTask (ods @ [ExecuteAfter parentStep]) in
          case getDependsOnSteps stepD j of
            Inl err \<Rightarrow> (Inl err, j)
          | Inr precedingDefSteps \<Rightarrow>
              (Inr stepD, JobDefinition_AddStep stepD
                 (if length precedingDefSteps = 0 then precedingDefSteps @ [RootStep j]
                  else precedingDefSteps) j))"
  by (auto simp: StepAfter_def inJob_def Let_def split: option.splits sum.splits)

lemma StepAfterBoth_inJob:
  "inJob j parentStepT \<Longrightarrow> inJob j parentStepS \<Longrightarrow>
     StepAfterBoth r j stepName parentStepT parentStepS ods
       = (let stepD = newStepDefinition r stepName stepTypeTask
                        (ods @ [ExecuteAfter parentStepT, ExecuteAfter parentStepS]) in
          case getDependsOnSteps stepD j of
            Inl err \<Rightarrow> (Inl err, j)
          | Inr precedingDefSteps \<Rightarrow>
              (Inr stepD, JobDefinition_AddStep stepD
                 (if length precedingDefSteps = 0 then precedingDefSteps @ [RootStep j]
                  else precedingDefSteps) j))"
  by (auto simp: StepAfterBoth_def inJob_def Let_def split: option.splits sum.splits)

text \<open>
  C6, amended. Every builder fails with a step-not-found error when a named predecessor
  is not in the job definition, and then leaves the job definition as it is: \<^verbatim>\<open>StepAfter\<close>,
  \<^verbatim>\<open>StepAfterBoth\<close> and \<^verbatim>\<open>StepFromJobInput\<close> when a data parent is not the step that the
  job has under the parent's name, and all four when the job has no step for a name the
  new definition depends on, with the first such name in the error. The builders do not
  compare the new step's name with the names of the existing steps.
\<close>

theorem C6_builders_step_not_found:
  "(firstMissing j (DependsOn (newStepDefinition r stepName stepTypeTask ods)) = Some d \<longrightarrow>
      AddStep r j stepName ods = (Inl (Errorf (''step ['' @ d @ ''] not found'')), j))
   \<and> (\<not> inJob j parentStep \<longrightarrow>
      StepAfter r j stepName parentStep ods
        = (Inl (Errorf (''step ['' @ GetName parentStep @ ''] not found in job'')), j))
   \<and> (inJob j parentStep
        \<and> firstMissing j (DependsOn (newStepDefinition r stepName stepTypeTask ods)) = Some d \<longrightarrow>
      StepAfter r j stepName parentStep ods = (Inl (Errorf (''step ['' @ d @ ''] not found'')), j))
   \<and> (\<not> inJob j parentStepT \<longrightarrow>
      StepAfterBoth r j stepName parentStepT parentStepS ods
        = (Inl (Errorf (''step ['' @ GetName parentStepT @ ''] not found in job'')), j))
   \<and> (inJob j parentStepT \<and> \<not> inJob j parentStepS \<longrightarrow>
      StepAfterBoth r j stepName parentStepT parentStepS ods
        = (Inl (Errorf (''step ['' @ GetName parentStepS @ ''] not found in job'')), j))
   \<and> (inJob j parentStepT \<and> inJob j parentStepS
        \<and> firstMissing j (DependsOn (newStepDefinition r stepName stepTypeTask ods)) = Some d \<longrightarrow>
      StepAfterBoth r j stepName parentStepT parentStepS ods
        = (Inl (Errorf (''step ['' @ d @ ''] not found'')), j))
   \<and> (\<not> inJob j (rootStep j) \<longrightarrow>
      StepFromJobInput r j stepName ods
        = (Inl (Errorf (''step ['' @ GetName (rootStep j) @ ''] not found in job'')), j))
   \<and> (inJob j (rootStep j)
        \<and> firstMissing j (DependsOn (newStepDefinition r stepName stepTypeTask ods)) = Some d \<longrightarrow>
      StepFromJobInput r j stepName ods = (Inl (Errorf (''step ['' @ d @ ''] not found'')), j))"
proof -
  have missing_app: "firstMissing j (xs @ ys) = Some d" if "firstMissing j xs = Some d" for xs ys
    using that by (induction xs) (auto simp: firstMissing_def split: if_splits)
  have add: "AddStep r j stepName ods = (Inl (Errorf (''step ['' @ d @ ''] not found'')), j)"
    if "firstMissing j (DependsOn (newStepDefinition r stepName stepTypeTask ods)) = Some d"
    using that by (simp add: AddStep_def getDependsOnSteps_def getDependsOnSteps_loop_missing)
  have after: "StepAfter r j stepName p ods = (Inl (Errorf (''step ['' @ d @ ''] not found'')), j)"
    if "inJob j p" "firstMissing j (DependsOn (newStepDefinition r stepName stepTypeTask ods)) = Some d" for p
    using that
    by (simp add: StepAfter_inJob getDependsOnSteps_def DependsOn_ExecuteAfter
        getDependsOnSteps_loop_missing[OF missing_app])
  have both: "StepAfterBoth r j stepName p q ods = (Inl (Errorf (''step ['' @ d @ ''] not found'')), j)"
    if "inJob j p" "inJob j q"
      "firstMissing j (DependsOn (newStepDefinition r stepName stepTypeTask ods)) = Some d" for p q
    using that
    by (simp add: StepAfterBoth_inJob getDependsOnSteps_def DependsOn_ExecuteAfter2
        getDependsOnSteps_loop_missing[OF missing_app])
  have bothT: "StepAfterBoth r j stepName p q ods
        = (Inl (Errorf (''step ['' @ GetName p @ ''] not found in job'')), j)"
    if "\<not> inJob j p" for p q
    using that by (auto simp: StepAfterBoth_def inJob_def split: option.splits)
  have bothS: "StepAfterBoth r j stepName p q ods
        = (Inl (Errorf (''step ['' @ GetName q @ ''] not found in job'')), j)"
    if "inJob j p" "\<not> inJob j q" for p q
    using that by (auto simp: StepAfterBoth_def inJob_def split: option.splits)
  show ?thesis
    using add after both bothT bothS
    by (simp add: StepAfter_not_inJob StepFromJobInput_def)
qed

subsection \<open>The example job\<close>

lemma steps_sqlSummaryJob:
  "steps sqlSummaryJob =
     [''sqlSummaryJob'' \<mapsto> newStepDefinition 0 ''sqlSummaryJob'' stepTypeRoot [],
      ''CheckAuth'' \<mapsto>
        \<lparr>ref = 1, name = ''CheckAuth'', stepType = stepTypeTask,
         executionOptions = \<lparr>DependOn = [''sqlSummaryJob''], RetryPolicy = None\<rparr>\<rparr>]"
  by (simp add: sqlSummaryJob_def AddStep_def NewJobDefinition_def newStepDefinition_def
      getDependsOnSteps_def DependsOn_def JobDefinition_AddStep_def registerStep_def GetName_def RootStep_def Let_def)

lemma GetStep_sqlSummaryJob [simp]:
  "GetStep sqlSummaryJob ''CheckAuth''
     = Some \<lparr>ref = 1, name = ''CheckAuth'', stepType = stepTypeTask,
             executionOptions = \<lparr>DependOn = [''sqlSummaryJob''], RetryPolicy = None\<rparr>\<rparr>"
  "GetStep sqlSummaryJob ''GetConnection'' = None"
  "GetStep sqlSummaryJob ''EmailNotification2'' = None"
  "GetStep (Seal sqlSummaryJob) n = GetStep sqlSummaryJob n"
  by (simp_all add: GetStep_def steps_sqlSummaryJob Seal_def)

lemma rootStep_sqlSummaryJob [simp]:
  "GetName (RootStep sqlSummaryJob) = ''sqlSummaryJob''"
  "GetName (RootStep (Seal sqlSummaryJob)) = ''sqlSummaryJob''"
  by (simp_all add: sqlSummaryJob_def AddStep_def NewJobDefinition_def newStepDefinition_def
      getDependsOnSteps_def DependsOn_def JobDefinition_AddStep_def registerStep_def GetName_def RootStep_def Let_def Seal_def)

lemma sealed_sqlSummaryJob [simp]: "\<not> sealed sqlSummaryJob"
  by (simp add: sqlSummaryJob_def AddStep_def NewJobDefinition_def newStepDefinition_def
      getDependsOnSteps_def DependsOn_def JobDefinition_AddStep_def registerStep_def GetName_def
      RootStep_def Let_def)

lemma GetStep_JobDefinition_AddStep:
  "\<not> sealed j \<Longrightarrow> GetStep (JobDefinition_AddStep step precedingSteps j) n
     = (if n = name step then Some step else GetStep j n)"
  by (simp add: GetStep_def JobDefinition_AddStep_def registerStep_def GetName_def)

text \<open>
  C6, as the claim states it, fails: the example job has a step \<^verbatim>\<open>CheckAuth\<close>, and
  \<^verbatim>\<open>AddStep\<close> with that name returns the new definition and no error; the job then has
  the new definition under the name.
\<close>

theorem C6_duplicate_step_counterexample:
  "map_option ref (GetStep sqlSummaryJob ''CheckAuth'') = Some 1
   \<and> fst (AddStep 2 sqlSummaryJob ''CheckAuth'' [])
       = Inr \<lparr>ref = 2, name = ''CheckAuth'', stepType = stepTypeTask,
              executionOptions = \<lparr>DependOn = [''sqlSummaryJob''], RetryPolicy = None\<rparr>\<rparr>
   \<and> map_option ref (GetStep (snd (AddStep 2 sqlSummaryJob ''CheckAuth'' [])) ''CheckAuth'') = Some 2"
proof -
  have "AddStep 2 sqlSummaryJob ''CheckAuth'' []
      = (Inr \<lparr>ref = 2, name = ''CheckAuth'', stepType = stepTypeTask,
              executionOptions = \<lparr>DependOn = [''sqlSummaryJob''], RetryPolicy = None\<rparr>\<rparr>,
         JobDefinition_AddStep
           \<lparr>ref = 2, name = ''CheckAuth'', stepType = stepTypeTask,
              executionOptions = \<lparr>DependOn = [''sqlSummaryJob''], RetryPolicy = None\<rparr>\<rparr>
           [RootStep sqlSummaryJob] sqlSummaryJob)"
    by (simp add: AddStep_def getDependsOnSteps_def DependsOn_def newStepDefinition_def Let_def)
  then show ?thesis
    by (simp add: GetStep_JobDefinition_AddStep)
qed

theorem C6_builders_step_not_found_witness:
  "firstMissing sqlSummaryJob (DependsOn (newStepDefinition 2 ''QueryTable1'' stepTypeTask [ExecuteAfter otherJobStep]))
     = Some ''GetConnection''
   \<and> AddStep 2 sqlSummaryJob ''QueryTable1'' [ExecuteAfter otherJobStep]
     = (Inl (Errorf ''step [GetConnection] not found''), sqlSummaryJob)
   \<and> \<not> inJob sqlSummaryJob otherJobStep
   \<and> StepAfter 2 sqlSummaryJob ''QueryTable1'' otherJobStep []
     = (Inl (Errorf ''step [GetConnection] not found in job''), sqlSummaryJob)
   \<and> \<not> inJob sqlSummaryJob (newStepDefinition 5 ''CheckAuth'' stepTypeTask [])
   \<and> StepAfter 2 sqlSummaryJob ''QueryTable1'' (newStepDefinition 5 ''CheckAuth'' stepTypeTask []) []
     = (Inl (Errorf ''step [CheckAuth] not found in job''), sqlSummaryJob)"
proof -
  have m: "firstMissing sqlSummaryJob
      (DependsOn (newStepDefinition 2 ''QueryTable1'' stepTypeTask [ExecuteAfter otherJobStep]))
     = Some ''GetConnection''"
    by (simp add: firstMissing_def DependsOn_def newStepDefinition_def ExecuteAfter_def otherJobStep_def
        GetName_def)
  have n1: "\<not> inJob sqlSummaryJob otherJobStep"
    by (simp add: inJob_def otherJobStep_def newStepDefinition_def GetName_def)
  have n2: "\<not> inJob sqlSummaryJob (newStepDefinition 5 ''CheckAuth'' stepTypeTask [])"
    by (simp add: inJob_def newStepDefinition_def GetName_def)
  from m n1 n2
    C6_builders_step_not_found[of sqlSummaryJob 2 "''QueryTable1''" "[ExecuteAfter otherJobStep]"
      "''GetConnection''"]
    C6_builders_step_not_found[of sqlSummaryJob 2 "''QueryTable1''" "[]" _ otherJobStep]
    C6_builders_step_not_found[of sqlSummaryJob 2 "''QueryTable1''" "[]" _
      "newStepDefinition 5 ''CheckAuth'' stepTypeTask []"]
  show ?thesis
    by (simp add: otherJobStep_def newStepDefinition_def GetName_def)
qed

text \<open>
  C3. A new job definition is not sealed, and \<^verbatim>\<open>Seal\<close> and the first \<^verbatim>\<open>Start\<close> seal it; but
  on the sealed example job the builder \<^verbatim>\<open>AddStep\<close>, called as \<^verbatim>\<open>TestDefinitionGraph\<close>
  calls it, returns the new step definition and no error, where the claim and the test
  expect an error.
\<close>

theorem C3_builder_on_sealed_job:
  "\<not> Sealed (NewJobDefinition 0 ''sqlSummaryJob'' :: unit JobDefinition)
   \<and> Sealed (Seal sqlSummaryJob)
   \<and> Sealed (JobDefinition_Start sqlSummaryJob)
   \<and> fst (AddStep 2 (Seal sqlSummaryJob) ''EmailNotification2'' [WithContextEnrichment])
       = Inr \<lparr>ref = 2, name = ''EmailNotification2'', stepType = stepTypeTask,
              executionOptions = \<lparr>DependOn = [''sqlSummaryJob''], RetryPolicy = None\<rparr>\<rparr>
   \<and> fst (AddStep 2 (JobDefinition_Start sqlSummaryJob) ''EmailNotification2'' [WithContextEnrichment])
       = Inr \<lparr>ref = 2, name = ''EmailNotification2'', stepType = stepTypeTask,
              executionOptions = \<lparr>DependOn = [''sqlSummaryJob''], RetryPolicy = None\<rparr>\<rparr>"
proof -
  have s: "\<not> Sealed sqlSummaryJob"
    by (simp add: Sealed_def)
  then have st: "JobDefinition_Start sqlSummaryJob = Seal sqlSummaryJob"
    by (simp add: JobDefinition_Start_def)
  have "\<not> Sealed (NewJobDefinition 0 ''sqlSummaryJob'' :: unit JobDefinition)"
    and "Sealed (Seal sqlSummaryJob)"
    by (simp_all add: Sealed_def Seal_def NewJobDefinition_def Let_def)
  moreover have "fst (AddStep 2 (Seal sqlSummaryJob) ''EmailNotification2'' [WithContextEnrichment])
       = Inr \<lparr>ref = 2, name = ''EmailNotification2'', stepType = stepTypeTask,
              executionOptions = \<lparr>DependOn = [''sqlSummaryJob''], RetryPolicy = None\<rparr>\<rparr>"
    by (simp add: AddStep_def getDependsOnSteps_def DependsOn_def newStepDefinition_def
        WithContextEnrichment_def Let_def)
  ultimately show ?thesis
    by (simp add: st)
qed

subsection \<open>The edges a builder adds\<close>

lemma ID_DotSpec [simp]: "ID (StepDefinition_DotSpec step) = GetName step"
  by (simp add: StepDefinition_DotSpec_def)

lemma AddNode_step:
  "nodes (snd (AddNode StepDefinition_DotSpec step g))
     = (if nodes g (GetName step) = None then (nodes g)(GetName step \<mapsto> step) else nodes g)"
  "nodeEdges (snd (AddNode StepDefinition_DotSpec step g)) = nodeEdges g"
  by (auto simp: AddNode_def Let_def split: option.splits)

lemma Connect_nodes [simp]: "nodes (snd (Connect a b g)) = nodes g"
  by (simp add: Connect_def split: option.splits)

lemma Connect_keeps: "hasEdge g x y \<Longrightarrow> hasEdge (snd (Connect a b g)) x y"
  by (auto simp: hasEdge_def Connect_def edgesOf_def split: option.splits)

lemma Connect_adds:
  assumes "keyed g" and "nodes g a \<noteq> None" and "nodes g b \<noteq> None"
  shows "hasEdge (snd (Connect a b g)) a b"
  using assms by (auto simp: hasEdge_def Connect_def edgesOf_def keyed_def split: option.splits)

lemma fold_Connect:
  assumes "keyed g" and "nodes g b \<noteq> None" and "\<forall>p\<in>set ps. nodes g (GetName p) \<noteq> None"
  shows "nodes (fold (\<lambda>p g. snd (Connect (ID (StepDefinition_DotSpec p)) b g)) ps g) = nodes g
    \<and> (\<forall>p\<in>set ps. hasEdge (fold (\<lambda>p g. snd (Connect (ID (StepDefinition_DotSpec p)) b g)) ps g) (GetName p) b)
    \<and> (\<forall>x y. hasEdge g x y \<longrightarrow> hasEdge (fold (\<lambda>p g. snd (Connect (ID (StepDefinition_DotSpec p)) b g)) ps g) x y)"
  using assms
proof (induction ps arbitrary: g)
  case Nil
  then show ?case by simp
next
  case (Cons p ps)
  let ?g1 = "snd (Connect (GetName p) b g)"
  have k: "keyed ?g1" using Cons.prems(1) by (simp add: keyed_def)
  have e: "hasEdge ?g1 (GetName p) b"
    using Cons.prems by (intro Connect_adds) auto
  have keep: "\<And>x y. hasEdge g x y \<Longrightarrow> hasEdge ?g1 x y"
    by (rule Connect_keeps)
  from Cons.IH[of ?g1, OF k] Cons.prems(2,3)
  have IH: "nodes (fold (\<lambda>p g. snd (Connect (ID (StepDefinition_DotSpec p)) b g)) ps ?g1) = nodes ?g1"
    "\<forall>q\<in>set ps. hasEdge (fold (\<lambda>p g. snd (Connect (ID (StepDefinition_DotSpec p)) b g)) ps ?g1) (GetName q) b"
    "\<forall>x y. hasEdge ?g1 x y \<longrightarrow> hasEdge (fold (\<lambda>p g. snd (Connect (ID (StepDefinition_DotSpec p)) b g)) ps ?g1) x y"
    by simp_all
  from IH e keep show ?case by auto
qed

lemma wellFormed_nodes: "wellFormed j \<Longrightarrow> (nodes (stepsDag j) n = None) = (steps j n = None)"
  by (simp add: wellFormed_def)

lemma keyed_AddNode:
  "keyed g \<Longrightarrow> keyed (snd (AddNode StepDefinition_DotSpec step g))"
  by (auto simp: keyed_def AddNode_step split: if_splits)

lemma hasEdge_AddNode:
  "hasEdge (snd (AddNode StepDefinition_DotSpec step g)) x y = hasEdge g x y"
  by (simp add: hasEdge_def edgesOf_def AddNode_step)

lemma registerStep_fields [simp]:
  "steps (registerStep step ps j) = (steps j)(GetName step \<mapsto> step)"
  "rootStep (registerStep step ps j) = rootStep j"
  "RootStep (registerStep step ps j) = RootStep j"
  "sealed (registerStep step ps j) = sealed j"
  by (simp_all add: registerStep_def RootStep_def)

lemma registerStep_graph:
  assumes wf: "wellFormed j" and reg: "\<forall>p\<in>set ps. steps j (GetName p) \<noteq> None"
  shows "nodes (stepsDag (registerStep step ps j))
           = (if nodes (stepsDag j) (GetName step) = None
              then (nodes (stepsDag j))(GetName step \<mapsto> step) else nodes (stepsDag j))"
    and "keyed (stepsDag (registerStep step ps j))"
    and "\<forall>p\<in>set ps. hasEdge (stepsDag (registerStep step ps j)) (GetName p) (GetName step)"
    and "\<forall>x y. hasEdge (stepsDag j) x y \<longrightarrow> hasEdge (stepsDag (registerStep step ps j)) x y"
proof -
  let ?g1 = "snd (AddNode StepDefinition_DotSpec step (stepsDag j))"
  have k0: "keyed (stepsDag j)"
    using wf by (simp add: wellFormed_def keyed_def)
  then have k1: "keyed ?g1"
    by (rule keyed_AddNode)
  have b: "nodes ?g1 (GetName step) \<noteq> None"
    by (simp add: AddNode_step)
  have same: "nodes (stepsDag j) n \<noteq> None" if "steps j n \<noteq> None" for n
    using wf that by (simp add: wellFormed_def)
  have ps: "\<forall>p\<in>set ps. nodes ?g1 (GetName p) \<noteq> None"
    using reg same by (simp add: AddNode_step)
  note f = fold_Connect[OF k1 b ps]
  have dag: "stepsDag (registerStep step ps j)
      = fold (\<lambda>p g. snd (Connect (ID (StepDefinition_DotSpec p)) (GetName step) g)) ps ?g1"
    by (simp add: registerStep_def)
  show "nodes (stepsDag (registerStep step ps j))
           = (if nodes (stepsDag j) (GetName step) = None
              then (nodes (stepsDag j))(GetName step \<mapsto> step) else nodes (stepsDag j))"
    using f by (simp add: dag AddNode_step)
  then show "keyed (stepsDag (registerStep step ps j))"
    using k0 by (auto simp: keyed_def split: if_splits)
  show "\<forall>p\<in>set ps. hasEdge (stepsDag (registerStep step ps j)) (GetName p) (GetName step)"
    using f by (simp add: dag)
  show "\<forall>x y. hasEdge (stepsDag j) x y \<longrightarrow> hasEdge (stepsDag (registerStep step ps j)) x y"
    using f by (simp add: dag hasEdge_AddNode)
qed

lemma registerStep_wellFormed:
  assumes wf: "wellFormed j" and reg: "\<forall>p\<in>set ps. steps j (GetName p) \<noteq> None"
  shows "wellFormed (registerStep step ps j)"
proof -
  note g = registerStep_graph[OF wf reg, of step]
  have root: "GetStep (registerStep step ps j) (GetName (RootStep (registerStep step ps j))) \<noteq> None"
    using wf by (simp add: wellFormed_def GetStep_def)
  have same: "(nodes (stepsDag (registerStep step ps j)) n = None)
      = (steps (registerStep step ps j) n = None)" for n
    using wellFormed_nodes[OF wf, of n] wellFormed_nodes[OF wf, of "GetName step"]
    by (auto simp: g(1))
  have named: "GetName s = n" if "steps (registerStep step ps j) n = Some s" for n s
    using wf that by (auto simp: wellFormed_def split: if_splits)
  from root same named g(2) show ?thesis
    unfolding wellFormed_def keyed_def by blast
qed

lemma registerStep_gated:
  assumes wf: "wellFormed j" and reg: "\<forall>p\<in>set ps. steps j (GetName p) \<noteq> None"
    and ne: "ps \<noteq> []" and g: "gated j"
  shows "gated (registerStep step ps j)"
proof -
  note gr = registerStep_graph[OF wf reg, of step]
  from ne obtain p where p: "p \<in> set ps" by (cases ps) auto
  with gr(3) have new: "hasEdge (stepsDag (registerStep step ps j)) (GetName p) (GetName step)"
    by blast
  show ?thesis
    unfolding gated_def
  proof (intro allI impI)
    fix n
    assume n: "steps (registerStep step ps j) n \<noteq> None
      \<and> n \<noteq> GetName (RootStep (registerStep step ps j))"
    show "\<exists>q. hasEdge (stepsDag (registerStep step ps j)) q n"
    proof (cases "n = GetName step")
      case True
      with new show ?thesis by blast
    next
      case False
      with n have "steps j n \<noteq> None \<and> n \<noteq> GetName (RootStep j)" by simp
      with g obtain q where "hasEdge (stepsDag j) q n" by (auto simp: gated_def)
      with gr(4) show ?thesis by blast
    qed
  qed
qed

lemma found_steps:
  assumes "wellFormed j" and "firstMissing j names = None"
  shows "map GetName (map (\<lambda>n. the (GetStep j n)) names) = names"
    and "\<forall>p\<in>set (map (\<lambda>n. the (GetStep j n)) names). steps j (GetName p) \<noteq> None"
proof -
  have each: "\<exists>s. steps j n = Some s \<and> GetName s = n" if "n \<in> set names" for n
    using assms that by (auto simp: firstMissing_None wellFormed_def GetStep_def)
  then have "\<And>n. n \<in> set names \<Longrightarrow> GetName (the (GetStep j n)) = n"
    by (force simp: GetStep_def)
  then show "map GetName (map (\<lambda>n. the (GetStep j n)) names) = names"
    by (simp add: map_idI)
  from each show "\<forall>p\<in>set (map (\<lambda>n. the (GetStep j n)) names). steps j (GetName p) \<noteq> None"
    by (force simp: GetStep_def)
qed

lemma firstMissing_cases:
  obtains d where "firstMissing j names = Some d" | "firstMissing j names = None"
  by (cases "firstMissing j names") auto

lemma GetName_new [simp]: "GetName (newStepDefinition r n k ods) = n"
  by (simp add: GetName_def newStepDefinition_def)

lemma AddStep_registers:
  assumes wf: "wellFormed j" and live: "\<not> Sealed j"
    and ok: "AddStep r j stepName ods = (Inr stepD, j')"
  shows "registers j stepName stepD j'"
    and "DependsOn (newStepDefinition r stepName stepTypeTask ods) = [] \<longrightarrow> DependsOn stepD = [GetName (RootStep j)]"
proof -
  let ?D = "newStepDefinition r stepName stepTypeTask ods"
  have fm: "firstMissing j (DependsOn ?D) = None"
  proof (cases rule: firstMissing_cases[of j "DependsOn ?D"])
    case (1 d)
    with ok show ?thesis
      by (simp add: AddStep_def getDependsOnSteps_def getDependsOnSteps_loop_missing)
  qed
  let ?ps = "map (\<lambda>n. the (GetStep j n)) (DependsOn ?D)"
  note fs = found_steps[OF wf fm]
  have loop: "getDependsOnSteps ?D j = Inr ?ps"
    by (simp add: getDependsOnSteps_def getDependsOnSteps_loop_found[OF fm])
  have root: "steps j (GetName (RootStep j)) \<noteq> None"
    using wf by (simp add: wellFormed_def GetStep_def)
  have unsealed: "\<not> sealed j"
    using live by (simp add: Sealed_def)
  show "registers j stepName stepD j'"
  proof (cases "DependsOn ?D = []")
    case True
    with ok loop root unsealed show ?thesis
      by (auto simp: AddStep_def Let_def registers_def DependsOn_def GetName_def newStepDefinition_def
          JobDefinition_AddStep_def intro!: exI[of _ "[RootStep j]"])
  next
    case False
    with ok loop fs unsealed show ?thesis
      by (auto simp: AddStep_def Let_def registers_def JobDefinition_AddStep_def intro!: exI[of _ ?ps])
  qed
  show "DependsOn ?D = [] \<longrightarrow> DependsOn stepD = [GetName (RootStep j)]"
    using ok loop by (auto simp: AddStep_def Let_def DependsOn_def)
qed

lemma StepAfter_registers:
  assumes wf: "wellFormed j" and live: "\<not> Sealed j"
    and ok: "StepAfter r j stepName parentStep ods = (Inr stepD, j')"
  shows "registers j stepName stepD j'"
proof -
  let ?D = "newStepDefinition r stepName stepTypeTask (ods @ [ExecuteAfter parentStep])"
  have inj: "inJob j parentStep"
    using ok by (cases "inJob j parentStep") (simp_all add: StepAfter_not_inJob)
  note body = StepAfter_inJob[OF inj, of r stepName ods]
  have fm: "firstMissing j (DependsOn ?D) = None"
  proof (cases rule: firstMissing_cases[of j "DependsOn ?D"])
    case (1 d)
    with ok show ?thesis
      by (simp add: body getDependsOnSteps_def getDependsOnSteps_loop_missing)
  qed
  let ?ps = "map (\<lambda>n. the (GetStep j n)) (DependsOn ?D)"
  note fs = found_steps[OF wf fm]
  have loop: "getDependsOnSteps ?D j = Inr ?ps"
    by (simp add: getDependsOnSteps_def getDependsOnSteps_loop_found[OF fm])
  have ne: "?ps \<noteq> []"
    by (simp add: DependsOn_ExecuteAfter)
  from ok loop ne fs live show ?thesis
    by (auto simp: body Let_def registers_def JobDefinition_AddStep_def Sealed_def intro!: exI[of _ ?ps])
qed

lemma StepAfterBoth_registers:
  assumes wf: "wellFormed j" and live: "\<not> Sealed j"
    and ok: "StepAfterBoth r j stepName parentStepT parentStepS ods = (Inr stepD, j')"
  shows "registers j stepName stepD j'"
proof -
  let ?D = "newStepDefinition r stepName stepTypeTask
              (ods @ [ExecuteAfter parentStepT, ExecuteAfter parentStepS])"
  have injT: "inJob j parentStepT"
    using ok by (cases "inJob j parentStepT") (auto simp: StepAfterBoth_def inJob_def split: option.splits)
  have injS: "inJob j parentStepS"
    using ok injT by (cases "inJob j parentStepS") (auto simp: StepAfterBoth_def inJob_def split: option.splits)
  note body = StepAfterBoth_inJob[OF injT injS, of r stepName ods]
  have fm: "firstMissing j (DependsOn ?D) = None"
  proof (cases rule: firstMissing_cases[of j "DependsOn ?D"])
    case (1 d)
    with ok show ?thesis
      by (simp add: body getDependsOnSteps_def getDependsOnSteps_loop_missing)
  qed
  let ?ps = "map (\<lambda>n. the (GetStep j n)) (DependsOn ?D)"
  note fs = found_steps[OF wf fm]
  have loop: "getDependsOnSteps ?D j = Inr ?ps"
    by (simp add: getDependsOnSteps_def getDependsOnSteps_loop_found[OF fm])
  have ne: "?ps \<noteq> []"
    by (simp add: DependsOn_ExecuteAfter2)
  from ok loop ne fs live show ?thesis
    by (auto simp: body Let_def registers_def JobDefinition_AddStep_def Sealed_def intro!: exI[of _ ?ps])
qed

lemma registers_gates:
  assumes wf: "wellFormed j" and reg: "registers j stepName stepD j'"
  shows "DependsOn stepD \<noteq> []"
    and "\<forall>d\<in>set (DependsOn stepD). GetStep j d \<noteq> None \<and> hasEdge (stepsDag j') d stepName"
    and "wellFormed j'" and "gated j \<longrightarrow> gated j'"
proof -
  from reg obtain ps where ps: "ps \<noteq> []" "map GetName ps = DependsOn stepD"
    "\<forall>p\<in>set ps. steps j (GetName p) \<noteq> None" "GetName stepD = stepName"
    "j' = registerStep stepD ps j"
    by (auto simp: registers_def)
  from ps(1,2) show "DependsOn stepD \<noteq> []"
    by auto
  note g = registerStep_graph[OF wf ps(3), of stepD]
  have names: "set (DependsOn stepD) = GetName ` set ps"
    using ps(2) by (metis set_map)
  show "\<forall>d\<in>set (DependsOn stepD). GetStep j d \<noteq> None \<and> hasEdge (stepsDag j') d stepName"
    using g(3) ps(3,4,5) by (auto simp: names GetStep_def)
  show "wellFormed j'"
    using registerStep_wellFormed[OF wf ps(3)] ps(5) by simp
  show "gated j \<longrightarrow> gated j'"
    using registerStep_gated[OF wf ps(3) ps(1)] ps(5) by simp
qed

lemma NewJobDefinition_wellFormed: "wellFormed (NewJobDefinition r n) \<and> gated (NewJobDefinition r n)"
  by (auto simp: wellFormed_def gated_def NewJobDefinition_def GetStep_def RootStep_def Let_def
      AddNode_def NewGraph_def newStepDefinition_def GetName_def StepDefinition_DotSpec_def
      split: if_splits)

text \<open>
  C7. On a well-formed, unsealed job definition, the step definition that a builder returns depends
  on at least one step; each name it depends on is a step of the job, and the graph of
  the job definition the builder leaves has an edge from that step to the new one. When
  \<^verbatim>\<open>AddStep\<close> is given no dependency, the one name is the root step's, and the
  instances that the body of the step waits for are the root's alone. The job definition
  stays well-formed, and if every step other than the root had an edge into it, that is
  still so.
\<close>

theorem C7_root_gates:
  assumes "wellFormed j" and "\<not> Sealed j"
    and "AddStep r j stepName ods = (Inr stepD, j')
       \<or> StepAfter r j stepName parentStep ods = (Inr stepD, j')
       \<or> StepAfterBoth r j stepName parentStepT parentStepS ods = (Inr stepD, j')
       \<or> StepFromJobInput r j stepName ods = (Inr stepD, j')"
  shows "DependsOn stepD \<noteq> []
     \<and> (\<forall>d\<in>set (DependsOn stepD). GetStep j d \<noteq> None \<and> hasEdge (stepsDag j') d stepName)
     \<and> (AddStep r j stepName ods = (Inr stepD, j')
          \<and> DependsOn (newStepDefinition r stepName stepTypeTask ods) = []
        \<longrightarrow> DependsOn stepD = [GetName (RootStep j)]
          \<and> (\<forall>ji rootInstance. ji (GetName (RootStep j)) = Some rootInstance
               \<longrightarrow> getDependsOnStepInstances stepD ji = Inr [rootInstance]))
     \<and> wellFormed j' \<and> (gated j \<longrightarrow> gated j')"
proof -
  from assms have "registers j stepName stepD j'"
    by (auto simp: StepFromJobInput_def
        dest: AddStep_registers(1) StepAfter_registers StepAfterBoth_registers)
  note gates = registers_gates[OF assms(1) this]
  have root: "DependsOn stepD = [GetName (RootStep j)]
      \<and> (\<forall>ji rootInstance. ji (GetName (RootStep j)) = Some rootInstance
            \<longrightarrow> getDependsOnStepInstances stepD ji = Inr [rootInstance])"
    if "AddStep r j stepName ods = (Inr stepD, j')"
      and "DependsOn (newStepDefinition r stepName stepTypeTask ods) = []"
  proof -
    from AddStep_registers(2)[OF assms(1,2) that(1)] that(2)
    have "DependsOn stepD = [GetName (RootStep j)]"
      by simp
    then show ?thesis
      by (simp add: getDependsOnStepInstances_def)
  qed
  have "AddStep r j stepName ods = (Inr stepD, j')
          \<and> DependsOn (newStepDefinition r stepName stepTypeTask ods) = []
        \<longrightarrow> DependsOn stepD = [GetName (RootStep j)]
          \<and> (\<forall>ji rootInstance. ji (GetName (RootStep j)) = Some rootInstance
               \<longrightarrow> getDependsOnStepInstances stepD ji = Inr [rootInstance])"
  proof (rule impI)
    assume added: "AddStep r j stepName ods = (Inr stepD, j')
          \<and> DependsOn (newStepDefinition r stepName stepTypeTask ods) = []"
    show "DependsOn stepD = [GetName (RootStep j)]
          \<and> (\<forall>ji rootInstance. ji (GetName (RootStep j)) = Some rootInstance
               \<longrightarrow> getDependsOnStepInstances stepD ji = Inr [rootInstance])"
      by (rule root[OF added[THEN conjunct1] added[THEN conjunct2]])
  qed
  with gates show ?thesis
    by (intro conjI)
qed

theorem C7_root_gates_witness:
  "wellFormed (NewJobDefinition 0 ''sqlSummaryJob'' :: unit JobDefinition)
   \<and> \<not> Sealed (NewJobDefinition 0 ''sqlSummaryJob'' :: unit JobDefinition)
   \<and> fst (AddStep 1 (NewJobDefinition 0 ''sqlSummaryJob'' :: unit JobDefinition) ''CheckAuth'' [])
       = Inr \<lparr>ref = 1, name = ''CheckAuth'', stepType = stepTypeTask,
              executionOptions = \<lparr>DependOn = [''sqlSummaryJob''], RetryPolicy = None\<rparr>\<rparr>
   \<and> hasEdge (stepsDag sqlSummaryJob) ''sqlSummaryJob'' ''CheckAuth''
   \<and> getDependsOnStepInstances
        (\<lparr>ref = 1, name = ''CheckAuth'', stepType = stepTypeTask,
          executionOptions = \<lparr>DependOn = [''sqlSummaryJob''], RetryPolicy = None\<rparr>\<rparr>
           :: unit StepDefinition)
        [''sqlSummaryJob'' \<mapsto>
           newStepInstance (RootStep (NewJobDefinition 0 ''sqlSummaryJob'' :: unit JobDefinition))]
       = Inr [newStepInstance (RootStep (NewJobDefinition 0 ''sqlSummaryJob'' :: unit JobDefinition))]
   \<and> wellFormed sqlSummaryJob \<and> gated sqlSummaryJob"
proof -
  let ?j = "NewJobDefinition 0 ''sqlSummaryJob'' :: unit JobDefinition"
  let ?D = "\<lparr>ref = 1, name = ''CheckAuth'', stepType = stepTypeTask,
              executionOptions = \<lparr>DependOn = [''sqlSummaryJob''], RetryPolicy = None\<rparr>\<rparr> :: unit StepDefinition"
  have wf: "wellFormed ?j" and g: "gated ?j"
    by (simp_all add: NewJobDefinition_wellFormed)
  have unsealed: "\<not> Sealed ?j"
    by (simp add: Sealed_def NewJobDefinition_def Let_def)
  have run: "AddStep 1 ?j ''CheckAuth'' [] = (Inr ?D, sqlSummaryJob)"
    by (simp add: sqlSummaryJob_def AddStep_def getDependsOnSteps_def DependsOn_def newStepDefinition_def
        Let_def NewJobDefinition_def RootStep_def GetName_def)
  have none: "DependsOn (newStepDefinition 1 ''CheckAuth'' stepTypeTask [] :: unit StepDefinition) = []"
    by (simp add: DependsOn_def newStepDefinition_def)
  have root: "GetName (RootStep ?j) = ''sqlSummaryJob''"
    by (simp add: NewJobDefinition_def RootStep_def GetName_def newStepDefinition_def Let_def)
  note gates = C7_root_gates[OF wf unsealed disjI1, OF run]
  from gates have "\<forall>d\<in>set (DependsOn ?D). GetStep ?j d \<noteq> None \<and> hasEdge (stepsDag sqlSummaryJob) d ''CheckAuth''"
    by (rule conjunct2[THEN conjunct1])
  then have edge: "hasEdge (stepsDag sqlSummaryJob) ''sqlSummaryJob'' ''CheckAuth''"
    by (simp add: DependsOn_def)
  from gates
  have imp: "AddStep 1 ?j ''CheckAuth'' [] = (Inr ?D, sqlSummaryJob)
        \<and> DependsOn (newStepDefinition 1 ''CheckAuth'' stepTypeTask [] :: unit StepDefinition) = []
      \<longrightarrow> DependsOn ?D = [GetName (RootStep ?j)]
        \<and> (\<forall>ji rootInstance. ji (GetName (RootStep ?j)) = Some rootInstance
             \<longrightarrow> getDependsOnStepInstances ?D ji = Inr [rootInstance])"
    by (rule conjunct2[THEN conjunct2, THEN conjunct1])
  from mp[OF imp conjI[OF run none]]
  have "\<forall>ji rootInstance. ji (GetName (RootStep ?j)) = Some rootInstance
          \<longrightarrow> getDependsOnStepInstances ?D ji = Inr [rootInstance]"
    by (rule conjunct2)
  from this[rule_format, of "[''sqlSummaryJob'' \<mapsto> newStepInstance (RootStep ?j)]"
      "newStepInstance (RootStep ?j)"]
  have waits: "getDependsOnStepInstances ?D [''sqlSummaryJob'' \<mapsto> newStepInstance (RootStep ?j)]
      = Inr [newStepInstance (RootStep ?j)]"
    by (simp only: root fun_upd_same)
  from gates have "wellFormed sqlSummaryJob \<and> (gated ?j \<longrightarrow> gated sqlSummaryJob)"
    by (rule conjunct2[THEN conjunct2, THEN conjunct2])
  with g have kept: "wellFormed sqlSummaryJob \<and> gated sqlSummaryJob"
    by simp
  from wf unsealed run edge waits kept show ?thesis
    by simp
qed

section \<open>Properties of wait\<close>

text \<open>
  C9. On a job instance all of whose tasks are terminal, \<^verbatim>\<open>Wait\<close> returns, whatever the
  state of its context, the first failure in insertion order or nil, and leaves the
  instance terminated; a second call returns what the first returned.
\<close>

theorem C9_wait_idempotent:
  assumes "terminated ji"
  shows "fst (JobInstance_Wait ctxDone1 ji) = Some (firstFailure (stepTasks ji))
    \<and> fst (JobInstance_Wait ctxDone2 (snd (JobInstance_Wait ctxDone1 ji)))
        = fst (JobInstance_Wait ctxDone1 ji)
    \<and> terminated (snd (JobInstance_Wait ctxDone1 ji))"
  using assms by (simp add: JobInstance_Wait_def)

theorem C9_wait_idempotent_witness:
  "terminated finishedJob
   \<and> fst (JobInstance_Wait False finishedJob) = Some (Some queryError)
   \<and> fst (JobInstance_Wait True (snd (JobInstance_Wait False finishedJob))) = Some (Some queryError)"
proof -
  have t: "terminated finishedJob"
    by (simp add: terminated_def finishedJob_def)
  from C9_wait_idempotent[OF t, of False True] t show ?thesis
    by (simp add: finishedJob_def)
qed

end
